theory Spec2Isabelle
  imports Complex_Main "HOL-Library.Word"
begin

section \<open>The search worker of searchthread.cpp\<close>

text \<open>
  A shallow embedding of \<^verbatim>\<open>engine/src/searchthread.cpp\<close>: the worker that selects
  leaves of the shared search tree, stages them in a mini-batch, and backs the values up.
  The build modelled is the neural-network one with state replay (neither
  \<^verbatim>\<open>SEARCH_UCT\<close> nor \<^verbatim>\<open>MCTS_STORE_STATES\<close> defined, \<^verbatim>\<open>MCTS_TB_SUPPORT\<close> defined).
  One worker is modelled: \<^verbatim>\<open>lock()\<close> and \<^verbatim>\<open>unlock()\<close> are no-ops of a sequential run.
\<close>

subsection \<open>Machine types\<close>

text \<open>
  \<^verbatim>\<open>size_t\<close> is taken as a 64-bit unsigned integer and \<^verbatim>\<open>ChildIdx\<close> as \<^verbatim>\<open>uint16_t\<close>
  (the source writes its sentinel as \<^verbatim>\<open>uint16_t(-1)\<close>). Container sizes and the batch
  size are natural numbers.
\<close>

type_synonym size_t = "64 word"
type_synonym ChildIdx = "16 word"
type_synonym Action = nat
type_synonym SideToMove = nat
type_synonym GamePhase = nat
type_synonym NodePtr = nat

datatype error =
  NullPointer | DivisionByZero | UndefinedConversion | EmptyRange | OutOfRange | AssertionFailed

text \<open>
  A \<^verbatim>\<open>double\<close>: a real number or one of the special values. The operations \<open>d_log2\<close>,
  \<open>d_neg\<close>, \<open>d_sub\<close> and \<open>d_ceil\<close> are exact on the finite values (their rounding to 53 bits
  is not modelled); the special values arise where the source's library calls produce them.
  The conversions, the division and the addition of \<^verbatim>\<open>get_avg_depth\<close> round with \<open>rnd\<close>
  below.
\<close>

datatype double = Finite real | PlusInf | MinusInf | NaN

fun d_log2 :: "double \<Rightarrow> double" where
  "d_log2 (Finite x) = (if 0 < x then Finite (log 2 x) else if x = 0 then MinusInf else NaN)"
| "d_log2 PlusInf = PlusInf"
| "d_log2 MinusInf = NaN"
| "d_log2 NaN = NaN"

fun d_neg :: "double \<Rightarrow> double" where
  "d_neg (Finite x) = Finite (- x)"
| "d_neg PlusInf = MinusInf"
| "d_neg MinusInf = PlusInf"
| "d_neg NaN = NaN"

fun d_sub :: "double \<Rightarrow> double \<Rightarrow> double" where
  "d_sub (Finite x) (Finite y) = Finite (x - y)"
| "d_sub (Finite x) PlusInf = MinusInf"
| "d_sub (Finite x) MinusInf = PlusInf"
| "d_sub PlusInf (Finite y) = PlusInf"
| "d_sub PlusInf MinusInf = PlusInf"
| "d_sub MinusInf (Finite y) = MinusInf"
| "d_sub MinusInf PlusInf = MinusInf"
| "d_sub x y = NaN"

fun d_ceil :: "double \<Rightarrow> double" where
  "d_ceil (Finite x) = Finite (of_int \<lceil>x\<rceil>)"
| "d_ceil x = x"

text \<open>
  Rounding of a real number to the nearest \<^verbatim>\<open>double\<close> (IEEE 754 binary64: 53 significant
  bits, a tie going to the even significand). \<open>ulp x\<close> is the distance between neighbouring
  doubles in the binade of \<open>x\<close>, and \<open>rnd x\<close> is the multiple of \<open>ulp x\<close> nearest to \<open>x\<close>.
  Subnormal numbers and overflow are left out: the numbers that \<^verbatim>\<open>get_avg_depth\<close> rounds
  are 0 or lie between 2 to the power -64 and 2 to the power 65.
\<close>

definition round_even :: "real \<Rightarrow> int" where
  "round_even x =
     (if x - of_int \<lfloor>x\<rfloor> < 1 / 2 then \<lfloor>x\<rfloor>
      else if 1 / 2 < x - of_int \<lfloor>x\<rfloor> then \<lfloor>x\<rfloor> + 1
      else if even \<lfloor>x\<rfloor> then \<lfloor>x\<rfloor> else \<lfloor>x\<rfloor> + 1)"

definition ulp :: "real \<Rightarrow> real" where
  "ulp x = 2 powr of_int (\<lfloor>log 2 \<bar>x\<bar>\<rfloor> - 52)"

definition rnd :: "real \<Rightarrow> real" where
  "rnd x = (if x = 0 then 0 else of_int (round_even (x / ulp x)) * ulp x)"

text \<open>
  Conversion of a \<^verbatim>\<open>double\<close> to \<^verbatim>\<open>size_t\<close> truncates towards zero; it is undefined
  when the truncated value is not a value of \<^verbatim>\<open>size_t\<close>, and for the special values.
\<close>

definition trunc :: "real \<Rightarrow> int" where
  "trunc x = (if x < 0 then \<lceil>x\<rceil> else \<lfloor>x\<rfloor>)"

fun to_size_t :: "double \<Rightarrow> error + size_t" where
  "to_size_t (Finite x) =
     (if 0 \<le> trunc x \<and> trunc x < 2 ^ 64 then Inr (word_of_int (trunc x)) else Inl UndefinedConversion)"
| "to_size_t x = Inl UndefinedConversion"

subsection \<open>Settings and limits\<close>

datatype SearchPlayerMode = MODE_SINGLE_PLAYER | MODE_TWO_PLAYER

record SearchSettings =
  batchSize :: nat
  searchPlayerMode :: SearchPlayerMode
  epsilonGreedyCounter :: nat
  epsilonChecksCounter :: nat
  mctsSolver :: bool
  nodePolicyTemperature :: real
  gamePhaseDefinition :: nat

record SearchLimits =
  nodes :: nat
  simulations :: nat
  nodesLimit :: nat

subsection \<open>The tree\<close>

text \<open>
  Modelled from the spec: the class \<^verbatim>\<open>Node\<close> (node.h is not among the sources), with the
  attributes of the spec's data model: visit count, value, the ordered children (an
  action and an optional child reference each), \<^verbatim>\<open>no_visit_idx\<close>, the node type and the
  flags. A node reference is an address into the store of nodes; \<^verbatim>\<open>nullptr\<close> is \<open>None\<close>.
  The visit counter is taken as \<^verbatim>\<open>uint32_t\<close>; the value estimate, a \<^verbatim>\<open>float\<close>, is a
  real number.
\<close>

datatype NodeType = UNSOLVED | SOLVED_WIN | SOLVED_LOSS | SOLVED_DRAW | TABLEBASE

record Node =
  visits :: "32 word"
  node_value :: real
  children :: "(Action \<times> NodePtr option) list"
  no_visit_idx :: nat
  node_type :: NodeType
  has_nn_results :: bool
  is_terminal :: bool
  is_transposition :: bool
  was_inspected :: bool

record Tree =
  node_at :: "NodePtr \<Rightarrow> Node"
  hashTable :: "nat \<Rightarrow> NodePtr option"

text \<open>
  Modelled from the spec: the accessors of \<^verbatim>\<open>Node\<close> that the worker calls
  (\<^verbatim>\<open>get_number_child_nodes\<close>, \<^verbatim>\<open>get_child_node\<close>, \<^verbatim>\<open>get_action\<close>, \<^verbatim>\<open>get_visits\<close>,
  \<^verbatim>\<open>set_as_inspected\<close>), reading and writing the attributes above. An index that is not a
  child of the node reads as no child.
\<close>

definition get_number_child_nodes :: "Node \<Rightarrow> nat" where
  "get_number_child_nodes n = length (children n)"

definition get_visits :: "Node \<Rightarrow> 32 word" where
  "get_visits n = visits n"

definition get_child_node :: "Node \<Rightarrow> nat \<Rightarrow> NodePtr option" where
  "get_child_node n idx = (if idx < length (children n) then snd (children n ! idx) else None)"

definition get_action :: "Node \<Rightarrow> nat \<Rightarrow> Action" where
  "get_action n idx = (if idx < length (children n) then fst (children n ! idx) else 0)"

text \<open>Modelled from the spec: a node is a playout node iff \<^verbatim>\<open>has_nn_results\<close> is true
  (invariant 1 of the data model).\<close>

definition is_playout_node :: "Node \<Rightarrow> bool" where
  "is_playout_node n = has_nn_results n"

text \<open>Modelled from the spec: \<^verbatim>\<open>increment_no_visit_idx\<close> moves \<^verbatim>\<open>no_visit_idx\<close> one
  child further and never beyond the number of children (testable property 5).\<close>

definition increment_no_visit_idx :: "Node \<Rightarrow> Node" where
  "increment_no_visit_idx n =
     (if no_visit_idx n < get_number_child_nodes n then n\<lparr>no_visit_idx := no_visit_idx n + 1\<rparr> else n)"

definition set_as_inspected :: "Node \<Rightarrow> Node" where
  "set_as_inspected n = n\<lparr>was_inspected := True\<rparr>"

subsection \<open>Batch staging\<close>

text \<open>
  Modelled from the spec: \<^verbatim>\<open>FixedVector\<close> (util, not among the sources), a container of
  fixed capacity: \<open>elems\<close> are the elements added since the last \<^verbatim>\<open>reset_idx\<close>. The worker
  adds an element only while the container is not full (the condition of the assembly loop
  sees to it); \<open>add_element\<close> itself does not look at the capacity.
\<close>

record 'a FixedVector =
  capacity :: nat
  elems :: "'a list"

definition make_FixedVector :: "nat \<Rightarrow> 'a FixedVector" where
  "make_FixedVector c = \<lparr>capacity = c, elems = []\<rparr>"

definition fv_size :: "'a FixedVector \<Rightarrow> nat" where
  "fv_size v = length (elems v)"

definition is_full :: "'a FixedVector \<Rightarrow> bool" where
  "is_full v = (length (elems v) = capacity v)"

definition add_element :: "'a \<Rightarrow> 'a FixedVector \<Rightarrow> 'a FixedVector" where
  "add_element x v = v\<lparr>elems := elems v @ [x]\<rparr>"

definition reset_idx :: "'a FixedVector \<Rightarrow> 'a FixedVector" where
  "reset_idx v = v\<lparr>elems := []\<rparr>"

datatype NodeBackup = NODE_COLLISION | NODE_TERMINAL | NODE_NEW_NODE | NODE_TRANSPOSITION

record NodeDescription =
  depth :: size_t
  type :: NodeBackup

type_synonym Trajectory = "(NodePtr \<times> ChildIdx) list"

subsection \<open>The worker\<close>

record NeuralNetAPI =
  is_policy_map :: bool
  get_nb_input_values_total :: nat
  get_version :: nat

record ('s) SearchThread =
  nets :: "NeuralNetAPI list"
  numPhases :: nat
  phaseToNetsIndex :: "GamePhase \<Rightarrow> nat option"
  inputPlanes :: "nat \<Rightarrow> real"
  valueOutputs :: "nat \<Rightarrow> real"
  probOutputs :: "nat \<Rightarrow> real"
  auxiliaryOutputs :: "nat \<Rightarrow> real"
  phaseCountMap :: "(GamePhase \<times> nat) list"
  rootNode :: "NodePtr option"
  rootState :: "'s option"
  newState :: "'s option"
  newNodes :: "NodePtr FixedVector"
  newNodeSideToMove :: "SideToMove FixedVector"
  transpositionValues :: "real FixedVector"
  isRunning :: bool
  searchSettings :: SearchSettings
  searchLimits :: "SearchLimits option"
  tbHits :: size_t
  depthSum :: size_t
  depthMax :: size_t
  visitsPreSearch :: size_t
  terminalNodeCache :: nat
  reachedTablebases :: bool
  trajectoryBuffer :: Trajectory
  actionsBuffer :: "Action list"
  newTrajectories :: "Trajectory list"
  transpositionTrajectories :: "Trajectory list"
  collisionTrajectories :: "Trajectory list"
  randCalls :: nat

text \<open>
  A C \<^verbatim>\<open>switch\<close>: control enters at the first label equal to the value and runs every
  statement list from there on until a \<^verbatim>\<open>break\<close>; the lists here have none, so it
  falls through to the end. No label equal: nothing runs.
\<close>

fun switch_fallthrough :: "'l \<Rightarrow> ('l \<times> ('a \<Rightarrow> 'a)) list \<Rightarrow> 'a \<Rightarrow> 'a" where
  "switch_fallthrough l [] x = x"
| "switch_fallthrough l ((l', body) # rest) x =
     (if l = l' then fold (\<lambda>b acc. b acc) (body # map snd rest) x
      else switch_fallthrough l rest x)"

text \<open>
  The constructor. The base class \<^verbatim>\<open>NeuralNetAPIUser\<close> is not among the sources: what it
  sets up (the nets, the phase table and the buffers) comes in as \<open>base\<close>. The members
  the initialiser list does not name are default-constructed: empty vectors and an empty
  histogram. \<open>randCalls\<close>, the number of calls of \<^verbatim>\<open>rand()\<close> made so far, stands for the
  state of the C library's generator.
\<close>

definition SearchThread_ctor :: "'s SearchThread \<Rightarrow> SearchSettings \<Rightarrow> 's SearchThread" where
  "SearchThread_ctor base settings =
     (let t = base\<lparr>
          rootNode := None, rootState := None, newState := None,
          newNodes := make_FixedVector (batchSize settings),
          newNodeSideToMove := make_FixedVector (batchSize settings),
          transpositionValues := make_FixedVector (batchSize settings * 2),
          isRunning := True, searchSettings := settings,
          tbHits := 0, depthSum := 0, depthMax := 0, visitsPreSearch := 0,
          terminalNodeCache := batchSize settings * 2,
          reachedTablebases := False\<rparr>;
        t = switch_fallthrough (searchPlayerMode settings)
              [(MODE_SINGLE_PLAYER, \<lambda>t. t\<lparr>terminalNodeCache := 1\<rparr>),
               (MODE_TWO_PLAYER, \<lambda>t. t)] t
      in t\<lparr>searchLimits := None, trajectoryBuffer := [], actionsBuffer := [],
           newTrajectories := [], transpositionTrajectories := [], collisionTrajectories := [],
           phaseCountMap := []\<rparr>)"

definition set_root_node :: "NodePtr \<Rightarrow> Tree \<Rightarrow> 's SearchThread \<Rightarrow> 's SearchThread" where
  "set_root_node v tree t =
     (let t = t\<lparr>rootNode := Some v\<rparr>
      in t\<lparr>visitsPreSearch := ucast (get_visits (node_at tree v))\<rparr>)"

subsection \<open>Statistics\<close>

text \<open>
  \<^verbatim>\<open>size_t(double(depthSum) / (rootNode->get_visits() - visitsPreSearch) + 0.5)\<close>: the
  difference is unsigned and wraps; a division by zero is undefined behaviour in C++ and is
  the error \<open>DivisionByZero\<close> here. Each step on \<^verbatim>\<open>double\<close> rounds: the conversion of
  \<^verbatim>\<open>depthSum\<close>, the conversion of the divisor, the quotient and the sum with 0.5.
\<close>

definition get_avg_depth :: "'s SearchThread \<Rightarrow> Tree \<Rightarrow> error + size_t" where
  "get_avg_depth t tree =
     (case rootNode t of
        None \<Rightarrow> Inl NullPointer
      | Some r \<Rightarrow>
          (let divisor = (ucast (get_visits (node_at tree r)) :: size_t) - visitsPreSearch t
           in if divisor = 0 then Inl DivisionByZero
              else to_size_t (Finite (rnd (rnd (rnd (real (unat (depthSum t))) /
                                                rnd (real (unat divisor))) + 1 / 2)))))"

text \<open>
  \<^verbatim>\<open>get_random_depth\<close>; \<open>r\<close> is the value \<^verbatim>\<open>rand()\<close> returns (never negative).
\<close>

definition get_random_depth :: "nat \<Rightarrow> error + size_t" where
  "get_random_depth r =
     (let randInt = r mod 100 + 1
      in to_size_t (d_ceil (d_sub (d_neg (d_log2 (d_sub (Finite 1) (Finite (real randInt / 100))))) (Finite 1))))"


subsection \<open>Collaborators\<close>

text \<open>
  The functions the worker calls that are not among the sources (members of \<^verbatim>\<open>Node\<close>, of
  the game state and of the network interface, the backup routines of the node module, and
  \<^verbatim>\<open>rand\<close>) are parameters, gathered in one record. Those of \<^verbatim>\<open>Node\<close> take the tree and
  the address of the node they are called on. \<open>node_add_new_node_to_tree\<close> is
  \<^verbatim>\<open>Node::add_new_node_to_tree\<close>, giving the attached node, the transposition flag and the
  tree. \<open>rand c k\<close> is the value the \<open>k\<close>-th call of \<^verbatim>\<open>rand()\<close> returns. \<open>'s\<close> is the
  type of game states.
\<close>

record 's Collab =
  rand :: "nat \<Rightarrow> nat"
  select_child_node :: "SearchSettings \<Rightarrow> Tree \<Rightarrow> NodePtr \<Rightarrow> ChildIdx"
  apply_virtual_loss_to_child :: "ChildIdx \<Rightarrow> SearchSettings \<Rightarrow> NodePtr \<Rightarrow> Tree \<Rightarrow> Tree"
  get_real_visits :: "Tree \<Rightarrow> NodePtr \<Rightarrow> ChildIdx \<Rightarrow> nat"
  get_transposition_q_value :: "SearchSettings \<Rightarrow> Tree \<Rightarrow> NodePtr \<Rightarrow> ChildIdx \<Rightarrow> nat \<Rightarrow> real"
  is_transposition_return :: "Tree \<Rightarrow> NodePtr \<Rightarrow> real \<Rightarrow> bool"
  get_transposition_backup_value :: "nat \<Rightarrow> real \<Rightarrow> real \<Rightarrow> real"
  node_add_new_node_to_tree :: "'s \<Rightarrow> NodePtr \<Rightarrow> ChildIdx \<Rightarrow> SearchSettings \<Rightarrow> Tree \<Rightarrow> NodePtr \<times> bool \<times> Tree"
  is_fully_expanded :: "Node \<Rightarrow> bool"
  is_tablebase :: "Node \<Rightarrow> bool"
  get_best_action_index :: "Tree \<Rightarrow> NodePtr \<Rightarrow> bool \<Rightarrow> SearchSettings \<Rightarrow> ChildIdx"
  backup_value :: "bool \<Rightarrow> real \<Rightarrow> SearchSettings \<Rightarrow> Trajectory \<Rightarrow> bool \<Rightarrow> Tree \<Rightarrow> Tree"
  backup_collision :: "SearchSettings \<Rightarrow> Trajectory \<Rightarrow> Tree \<Rightarrow> Tree"
  get_policy_data_batch :: "nat \<Rightarrow> (nat \<Rightarrow> real) \<Rightarrow> bool \<Rightarrow> real list"
  set_probabilities_for_moves :: "real list \<Rightarrow> bool \<Rightarrow> Node \<Rightarrow> Node"
  enhance_moves :: "SearchSettings \<Rightarrow> Node \<Rightarrow> Node"
  apply_temperature_to_prior_policy :: "real \<Rightarrow> Node \<Rightarrow> Node"
  do_action :: "Action \<Rightarrow> 's \<Rightarrow> 's"
  gives_check :: "'s \<Rightarrow> Action \<Rightarrow> bool"
  side_to_move :: "'s \<Rightarrow> SideToMove"
  mirror_policy :: "'s \<Rightarrow> SideToMove \<Rightarrow> bool"
  get_state_planes :: "bool \<Rightarrow> 's \<Rightarrow> nat \<Rightarrow> real list"
  get_phase :: "'s \<Rightarrow> nat \<Rightarrow> nat \<Rightarrow> GamePhase"
  predict :: "nat \<Rightarrow> (nat \<Rightarrow> real) \<Rightarrow> (nat \<Rightarrow> real) \<times> (nat \<Rightarrow> real) \<times> (nat \<Rightarrow> real)"

definition rand_call :: "'s Collab \<Rightarrow> 's SearchThread \<Rightarrow> nat \<times> 's SearchThread" where
  "rand_call c t = (rand c (randCalls t), t\<lparr>randCalls := randCalls t + 1\<rparr>)"

text \<open>The sentinel child index \<^verbatim>\<open>uint16_t(-1)\<close>.\<close>

definition sentinel :: ChildIdx where
  "sentinel = - 1"

definition set_node :: "NodePtr \<Rightarrow> Node \<Rightarrow> Tree \<Rightarrow> Tree" where
  "set_node p n tree = tree\<lparr>node_at := (node_at tree)(p := n)\<rparr>"

subsection \<open>Random playouts\<close>

text \<open>
  \<^verbatim>\<open>random_playout\<close>. The index drawn is a \<^verbatim>\<open>size_t\<close>; storing it in \<^verbatim>\<open>childIdx\<close>
  keeps its low 16 bits. \<^verbatim>\<open>rand() % 0\<close> is the error \<open>DivisionByZero\<close>, and
  \<^verbatim>\<open>get_number_child_nodes() - 1\<close> wraps at zero.
\<close>

definition random_playout ::
  "'s Collab \<Rightarrow> 's SearchThread \<Rightarrow> Tree \<Rightarrow> NodePtr \<Rightarrow> error + (ChildIdx \<times> 's SearchThread \<times> Tree)" where
  "random_playout c t tree currentNode =
     (let node = node_at tree currentNode in
      if is_fully_expanded c node then
        (let (r, t) = rand_call c t; n = get_number_child_nodes node
         in if n = 0 then Inl DivisionByZero
            else
              (let idx = r mod n
               in case get_child_node node idx of
                    None \<Rightarrow> Inr (word_of_nat idx, t, tree)
                  | Some child \<Rightarrow>
                      if \<not> is_playout_node (node_at tree child) then Inr (word_of_nat idx, t, tree)
                      else if node_type (node_at tree child) = UNSOLVED then Inr (word_of_nat idx, t, tree)
                      else Inr (sentinel, t, tree)))
      else
        (let n = get_number_child_nodes node;
             idx = min (no_visit_idx node) (if n = 0 then 2 ^ 64 - 1 else n - 1)
         in Inr (word_of_nat idx, t, set_node currentNode (increment_no_visit_idx node) tree)))"

subsection \<open>The check probe\<close>

text \<open>
  The scan of \<^verbatim>\<open>select_enhanced_move\<close>: the first child index from \<open>childIdx\<close> on whose
  action gives check in \<open>pos\<close>, if there is one.
\<close>

function scan_checks :: "(Action \<Rightarrow> bool) \<Rightarrow> Node \<Rightarrow> nat \<Rightarrow> nat option" where
  "scan_checks chk node childIdx =
     (if childIdx < get_number_child_nodes node
      then (if chk (get_action node childIdx) then Some childIdx
            else scan_checks chk node (childIdx + 1))
      else None)"
  by pat_completeness auto
termination
  by (relation "measure (\<lambda>(chk, node, childIdx). get_number_child_nodes node - childIdx)") auto

text \<open>
  The inner loop \<^verbatim>\<open>for (idx = no_visit_idx; idx < childIdx+1; ++idx)\<close>: one increment of
  \<^verbatim>\<open>no_visit_idx\<close> for each \<open>idx\<close> below \<open>bound\<close>.
\<close>

function advance_no_visit_idx :: "nat \<Rightarrow> nat \<Rightarrow> Node \<Rightarrow> Node" where
  "advance_no_visit_idx idx bound node =
     (if idx < bound then advance_no_visit_idx (idx + 1) bound (increment_no_visit_idx node)
      else node)"
  by pat_completeness auto
termination
  by (relation "measure (\<lambda>(idx, bound, node). bound - idx)") auto

declare scan_checks.simps [simp del]

declare advance_no_visit_idx.simps [simp del]

definition select_enhanced_move ::
  "'s Collab \<Rightarrow> 's SearchThread \<Rightarrow> Tree \<Rightarrow> NodePtr \<Rightarrow> error + (ChildIdx \<times> Tree)" where
  "select_enhanced_move c t tree currentNode =
     (let node = node_at tree currentNode in
      if is_playout_node node \<and> \<not> was_inspected node \<and> \<not> is_terminal node then
        (case rootState t of
           None \<Rightarrow> Inl NullPointer
         | Some rs \<Rightarrow>
             (let pos = fold (do_action c) (actionsBuffer t) rs
              in case scan_checks (gives_check c pos) node (no_visit_idx node) of
                   Some childIdx \<Rightarrow>
                     Inr (word_of_nat childIdx,
                          set_node currentNode
                            (advance_no_visit_idx (no_visit_idx node) (childIdx + 1) node) tree)
                 | None \<Rightarrow> Inr (sentinel, set_node currentNode (set_as_inspected node) tree)))
      else Inr (sentinel, tree))"

subsection \<open>Selection\<close>

definition set_root_state :: "'s \<Rightarrow> 's SearchThread \<Rightarrow> 's SearchThread" where
  "set_root_state v t = t\<lparr>rootState := Some v\<rparr>"

text \<open>
  \<^verbatim>\<open>get_starting_node\<close>: the loop runs \<open>depth\<close> times at most and stops early at a child
  that is missing, not a playout node, too little visited or solved.
\<close>

fun get_starting_node_loop ::
  "nat \<Rightarrow> 's Collab \<Rightarrow> 's SearchThread \<Rightarrow> Tree \<Rightarrow> NodePtr \<Rightarrow> NodeDescription \<Rightarrow> ChildIdx \<Rightarrow>
     NodePtr \<times> NodeDescription \<times> ChildIdx \<times> 's SearchThread" where
  "get_starting_node_loop 0 c t tree currentNode description childIdx =
     (currentNode, description, childIdx, t)"
| "get_starting_node_loop (Suc k) c t tree currentNode description childIdx =
     (let childIdx = get_best_action_index c tree currentNode True (searchSettings t)
      in case get_child_node (node_at tree currentNode) (unat childIdx) of
           None \<Rightarrow> (currentNode, description, childIdx, t)
         | Some nextNode \<Rightarrow>
             if \<not> is_playout_node (node_at tree nextNode)
                \<or> unat (get_visits (node_at tree nextNode)) < epsilonGreedyCounter (searchSettings t)
                \<or> node_type (node_at tree nextNode) \<noteq> UNSOLVED
             then (currentNode, description, childIdx, t)
             else get_starting_node_loop k c
                    (t\<lparr>actionsBuffer := actionsBuffer t @ [get_action (node_at tree currentNode) (unat childIdx)]\<rparr>)
                    tree nextNode (description\<lparr>depth := depth description + 1\<rparr>) childIdx)"

definition get_starting_node ::
  "'s Collab \<Rightarrow> 's SearchThread \<Rightarrow> Tree \<Rightarrow> NodePtr \<Rightarrow> NodeDescription \<Rightarrow> ChildIdx \<Rightarrow>
     error + (NodePtr \<times> NodeDescription \<times> ChildIdx \<times> 's SearchThread)" where
  "get_starting_node c t tree currentNode description childIdx =
     (let (r, t) = rand_call c t
      in case get_random_depth r of
           Inl e \<Rightarrow> Inl e
         | Inr d \<Rightarrow>
             Inr (get_starting_node_loop (unat d) c t tree currentNode description childIdx))"

text \<open>
  \<^verbatim>\<open>SearchThread::add_new_node_to_tree\<close>. The value staged for a transposition is read
  through the parent's child slot, a null slot being the error \<open>NullPointer\<close>.
\<close>

definition add_new_node_to_tree ::
  "'s Collab \<Rightarrow> 's SearchThread \<Rightarrow> Tree \<Rightarrow> 's \<Rightarrow> NodePtr \<Rightarrow> ChildIdx \<Rightarrow>
     error + (NodePtr \<times> NodeBackup \<times> 's SearchThread \<times> Tree)" where
  "add_new_node_to_tree c t tree state parentNode childIdx =
     (let (newNode, transposition, tree) =
            node_add_new_node_to_tree c state parentNode childIdx (searchSettings t) tree
      in if is_terminal (node_at tree newNode) then Inr (newNode, NODE_TERMINAL, t, tree)
         else if transposition then
           (case get_child_node (node_at tree parentNode) (unat childIdx) of
              None \<Rightarrow> Inl NullPointer
            | Some child \<Rightarrow>
                Inr (newNode, NODE_TRANSPOSITION,
                     t\<lparr>transpositionValues :=
                          add_element (node_value (node_at tree child)) (transpositionValues t)\<rparr>,
                     tree))
         else Inr (newNode, NODE_NEW_NODE, t, tree))"

text \<open>Writing a block of values into a buffer at an offset.\<close>

definition write_planes :: "(nat \<Rightarrow> real) \<Rightarrow> nat \<Rightarrow> real list \<Rightarrow> (nat \<Rightarrow> real)" where
  "write_planes buf offset xs =
     (\<lambda>i. if offset \<le> i \<and> i < offset + length xs then xs ! (i - offset) else buf i)"

text \<open>
  Modelled from the spec: \<^verbatim>\<open>phaseCountMap[phase]++\<close> on the per-batch histogram, whose
  entries stand in first-seen order.
\<close>

fun increment_count :: "GamePhase \<Rightarrow> (GamePhase \<times> nat) list \<Rightarrow> (GamePhase \<times> nat) list" where
  "increment_count p [] = [(p, 1)]"
| "increment_count p ((q, n) # rest) =
     (if p = q then (q, n + 1) # rest else (q, n) # increment_count p rest)"

text \<open>
  The branch \<^verbatim>\<open>nextNode == nullptr\<close> of the selection loop: the child state is replayed
  from the root state, the node is attached, and a new node is prepared for the network.
  \<open>description\<close> has its depth incremented already; a failing \<^verbatim>\<open>assert\<close> is the error
  \<open>AssertionFailed\<close>.
\<close>

definition expand_child ::
  "'s Collab \<Rightarrow> 's SearchThread \<Rightarrow> Tree \<Rightarrow> NodePtr \<Rightarrow> ChildIdx \<Rightarrow> NodeDescription \<Rightarrow>
     error + (NodePtr \<times> NodeDescription \<times> 's SearchThread \<times> Tree)" where
  "expand_child c t tree currentNode childIdx description =
     (case rootState t of
        None \<Rightarrow> Inl NullPointer
      | Some rs \<Rightarrow>
          if word_of_nat (length (actionsBuffer t)) \<noteq> depth description - 1 then Inl AssertionFailed
          else
            (let st = fold (do_action c) (actionsBuffer t) rs;
                 st = do_action c (get_action (node_at tree currentNode) (unat childIdx)) st;
                 t = t\<lparr>newState := Some st\<rparr>;
                 tree = set_node currentNode (increment_no_visit_idx (node_at tree currentNode)) tree
             in case add_new_node_to_tree c t tree st currentNode childIdx of
                  Inl e \<Rightarrow> Inl e
                | Inr (nextNode, nodeBackup, t, tree) \<Rightarrow>
                    (let description = description\<lparr>type := nodeBackup\<rparr>
                     in if type description = NODE_NEW_NODE then
                          (case nets t of
                             [] \<Rightarrow> Inl EmptyRange
                           | net # _ \<Rightarrow>
                               (let t = t\<lparr>inputPlanes :=
                                          write_planes (inputPlanes t)
                                            (fv_size (newNodes t) * get_nb_input_values_total net)
                                            (get_state_planes c True st (get_version net))\<rparr>;
                                    currPhase = get_phase c st (numPhases t)
                                                  (gamePhaseDefinition (searchSettings t));
                                    t = t\<lparr>phaseCountMap := increment_count currPhase (phaseCountMap t)\<rparr>;
                                    t = t\<lparr>newNodeSideToMove :=
                                          add_element (side_to_move c st) (newNodeSideToMove t)\<rparr>
                                in Inr (nextNode, description, t, tree)))
                        else Inr (nextNode, description, t, tree))))"

text \<open>
  One pass of the \<^verbatim>\<open>while (true)\<close> loop of \<^verbatim>\<open>get_new_child_to_evaluate\<close>: it returns a
  node, or descends into the child with the child index cleared.
\<close>

datatype 's pass =
  Return NodePtr NodeDescription "'s SearchThread" Tree
| Descend NodePtr NodeDescription "'s SearchThread" Tree

definition select_pass ::
  "'s Collab \<Rightarrow> 's SearchThread \<Rightarrow> Tree \<Rightarrow> NodePtr \<Rightarrow> ChildIdx \<Rightarrow> NodeDescription \<Rightarrow>
     error + 's pass" where
  "select_pass c t tree currentNode childIdx description =
     (let childIdx = (if childIdx = sentinel
                      then select_child_node c (searchSettings t) tree currentNode
                      else childIdx);
          tree = apply_virtual_loss_to_child c childIdx (searchSettings t) currentNode tree;
          t = t\<lparr>trajectoryBuffer := trajectoryBuffer t @ [(currentNode, childIdx)]\<rparr>;
          description = description\<lparr>depth := depth description + 1\<rparr>
      in case get_child_node (node_at tree currentNode) (unat childIdx) of
           None \<Rightarrow>
             (case expand_child c t tree currentNode childIdx description of
                Inl e \<Rightarrow> Inl e
              | Inr (nextNode, description, t, tree) \<Rightarrow> Inr (Return nextNode description t tree))
         | Some nextNode \<Rightarrow>
             if is_terminal (node_at tree nextNode)
             then Inr (Return nextNode (description\<lparr>type := NODE_TERMINAL\<rparr>) t tree)
             else if \<not> has_nn_results (node_at tree nextNode)
             then Inr (Return nextNode (description\<lparr>type := NODE_COLLISION\<rparr>) t tree)
             else
               (let descend = Inr (Descend nextNode description
                                (t\<lparr>actionsBuffer := actionsBuffer t @
                                     [get_action (node_at tree currentNode) (unat childIdx)]\<rparr>)
                                tree)
                in if is_transposition (node_at tree nextNode) then
                     (let transposVisits = get_real_visits c tree currentNode childIdx;
                          transposQValue = get_transposition_q_value c (searchSettings t) tree
                                             currentNode childIdx transposVisits
                      in if is_transposition_return c tree nextNode transposQValue then
                           (let backupValue = get_transposition_backup_value c transposVisits
                                                transposQValue (node_value (node_at tree nextNode))
                            in Inr (Return nextNode (description\<lparr>type := NODE_TRANSPOSITION\<rparr>)
                                      (t\<lparr>transpositionValues :=
                                           add_element backupValue (transpositionValues t)\<rparr>)
                                      tree))
                         else descend)
                   else descend))"

text \<open>
  The loop itself, with fuel: \<open>None\<close> when the fuel runs out before a node is returned.
\<close>

fun select_loop ::
  "nat \<Rightarrow> 's Collab \<Rightarrow> 's SearchThread \<Rightarrow> Tree \<Rightarrow> NodePtr \<Rightarrow> ChildIdx \<Rightarrow> NodeDescription \<Rightarrow>
     (error + (NodePtr \<times> NodeDescription \<times> 's SearchThread \<times> Tree)) option" where
  "select_loop 0 c t tree currentNode childIdx description = None"
| "select_loop (Suc fuel) c t tree currentNode childIdx description =
     (case select_pass c t tree currentNode childIdx description of
        Inl e \<Rightarrow> Some (Inl e)
      | Inr (Return nextNode description t tree) \<Rightarrow> Some (Inr (nextNode, description, t, tree))
      | Inr (Descend nextNode description t tree) \<Rightarrow>
          select_loop fuel c t tree nextNode sentinel description)"

text \<open>
  The start of \<^verbatim>\<open>get_new_child_to_evaluate\<close>: random-playout mode, check-probe mode, or
  the root with no child chosen. \<^verbatim>\<open>rand()\<close> is called only where the conditions before
  it hold.
\<close>

definition start_random_playout ::
  "'s Collab \<Rightarrow> 's SearchThread \<Rightarrow> Tree \<Rightarrow> NodePtr \<Rightarrow> NodeDescription \<Rightarrow>
     error + (NodePtr \<times> ChildIdx \<times> NodeDescription \<times> 's SearchThread \<times> Tree)" where
  "start_random_playout c t tree currentNode description =
     (case get_starting_node c t tree currentNode description sentinel of
        Inl e \<Rightarrow> Inl e
      | Inr (currentNode, description, childIdx, t) \<Rightarrow>
          (case random_playout c t tree currentNode of
             Inl e \<Rightarrow> Inl e
           | Inr (childIdx, t, tree) \<Rightarrow> Inr (currentNode, childIdx, description, t, tree)))"

definition start_check_probe ::
  "'s Collab \<Rightarrow> 's SearchThread \<Rightarrow> Tree \<Rightarrow> NodePtr \<Rightarrow> NodeDescription \<Rightarrow>
     error + (NodePtr \<times> ChildIdx \<times> NodeDescription \<times> 's SearchThread \<times> Tree)" where
  "start_check_probe c t tree currentNode description =
     (case get_starting_node c t tree currentNode description sentinel of
        Inl e \<Rightarrow> Inl e
      | Inr (currentNode, description, childIdx, t) \<Rightarrow>
          (case select_enhanced_move c t tree currentNode of
             Inl e \<Rightarrow> Inl e
           | Inr (childIdx, tree) \<Rightarrow>
               if childIdx = sentinel then
                 (case random_playout c t tree currentNode of
                    Inl e \<Rightarrow> Inl e
                  | Inr (childIdx, t, tree) \<Rightarrow> Inr (currentNode, childIdx, description, t, tree))
               else Inr (currentNode, childIdx, description, t, tree)))"

definition start_checks_or_root ::
  "'s Collab \<Rightarrow> 's SearchThread \<Rightarrow> Tree \<Rightarrow> NodePtr \<Rightarrow> NodeDescription \<Rightarrow>
     error + (NodePtr \<times> ChildIdx \<times> NodeDescription \<times> 's SearchThread \<times> Tree)" where
  "start_checks_or_root c t tree rootN description =
     (if epsilonChecksCounter (searchSettings t) \<noteq> 0 \<and> is_playout_node (node_at tree rootN) then
        (let (r, t) = rand_call c t
         in if r mod epsilonChecksCounter (searchSettings t) = 0
            then start_check_probe c t tree rootN description
            else Inr (rootN, sentinel, description, t, tree))
      else Inr (rootN, sentinel, description, t, tree))"

definition start_selection ::
  "'s Collab \<Rightarrow> 's SearchThread \<Rightarrow> Tree \<Rightarrow> NodePtr \<Rightarrow> NodeDescription \<Rightarrow>
     error + (NodePtr \<times> ChildIdx \<times> NodeDescription \<times> 's SearchThread \<times> Tree)" where
  "start_selection c t tree rootN description =
     (if epsilonGreedyCounter (searchSettings t) \<noteq> 0 \<and> is_playout_node (node_at tree rootN) then
        (let (r, t) = rand_call c t
         in if r mod epsilonGreedyCounter (searchSettings t) = 0
            then start_random_playout c t tree rootN description
            else start_checks_or_root c t tree rootN description)
      else start_checks_or_root c t tree rootN description)"

definition get_new_child_to_evaluate ::
  "nat \<Rightarrow> 's Collab \<Rightarrow> 's SearchThread \<Rightarrow> Tree \<Rightarrow> NodeDescription \<Rightarrow>
     (error + (NodePtr \<times> NodeDescription \<times> 's SearchThread \<times> Tree)) option" where
  "get_new_child_to_evaluate fuel c t tree description =
     (case rootNode t of
        None \<Rightarrow> Some (Inl NullPointer)
      | Some rootN \<Rightarrow>
          (case start_selection c t tree rootN (description\<lparr>depth := 0\<rparr>) of
             Inl e \<Rightarrow> Some (Inl e)
           | Inr (currentNode, childIdx, description, t, tree) \<Rightarrow>
               select_loop fuel c t tree currentNode childIdx description))"

subsection \<open>Mini-batch assembly\<close>

text \<open>The condition of the \<^verbatim>\<open>while\<close> loop of \<^verbatim>\<open>create_mini_batch\<close>.\<close>

definition batch_continues :: "'s SearchThread \<Rightarrow> nat \<Rightarrow> bool" where
  "batch_continues t numTerminalNodes =
     (\<not> is_full (newNodes t) \<and>
      length (collisionTrajectories t) \<noteq> batchSize (searchSettings t) \<and>
      \<not> is_full (transpositionValues t) \<and>
      numTerminalNodes < terminalNodeCache t)"

text \<open>The body of the loop: one selection and the dispatch of the leaf by its type.\<close>

definition mini_batch_pass ::
  "nat \<Rightarrow> 's Collab \<Rightarrow> 's SearchThread \<Rightarrow> Tree \<Rightarrow> NodeDescription \<Rightarrow> nat \<Rightarrow>
     (error + ('s SearchThread \<times> Tree \<times> NodeDescription \<times> nat)) option" where
  "mini_batch_pass sfuel c t tree description numTerminalNodes =
     (let t = t\<lparr>trajectoryBuffer := [], actionsBuffer := []\<rparr>
      in case get_new_child_to_evaluate sfuel c t tree description of
           None \<Rightarrow> None
         | Some (Inl e) \<Rightarrow> Some (Inl e)
         | Some (Inr (newNode, description, t, tree)) \<Rightarrow>
             (let t = t\<lparr>depthSum := depthSum t + depth description\<rparr>;
                  t = t\<lparr>depthMax := max (depthMax t) (depth description)\<rparr>
              in Some (Inr
                   (if type description = NODE_TERMINAL then
                      (t,
                       backup_value c True (node_value (node_at tree newNode)) (searchSettings t)
                         (trajectoryBuffer t) (mctsSolver (searchSettings t)) tree,
                       description, numTerminalNodes + 1)
                    else if type description = NODE_COLLISION then
                      (t\<lparr>collisionTrajectories := collisionTrajectories t @ [trajectoryBuffer t]\<rparr>,
                       tree, description, numTerminalNodes)
                    else if type description = NODE_TRANSPOSITION then
                      (t\<lparr>transpositionTrajectories :=
                           transpositionTrajectories t @ [trajectoryBuffer t]\<rparr>,
                       tree, description, numTerminalNodes)
                    else
                      (t\<lparr>newNodes := add_element newNode (newNodes t),
                         newTrajectories := newTrajectories t @ [trajectoryBuffer t]\<rparr>,
                       tree, description, numTerminalNodes)))))"

text \<open>
  The loop with fuel: \<open>fuel\<close> bounds the passes of the assembly loop, \<open>sfuel\<close> the passes of
  each selection.
\<close>

fun create_mini_batch_loop ::
  "nat \<Rightarrow> nat \<Rightarrow> 's Collab \<Rightarrow> 's SearchThread \<Rightarrow> Tree \<Rightarrow> NodeDescription \<Rightarrow> nat \<Rightarrow>
     (error + ('s SearchThread \<times> Tree \<times> NodeDescription \<times> nat)) option" where
  "create_mini_batch_loop 0 sfuel c t tree description numTerminalNodes =
     (if batch_continues t numTerminalNodes then None
      else Some (Inr (t, tree, description, numTerminalNodes)))"
| "create_mini_batch_loop (Suc fuel) sfuel c t tree description numTerminalNodes =
     (if batch_continues t numTerminalNodes then
        (case mini_batch_pass sfuel c t tree description numTerminalNodes of
           None \<Rightarrow> None
         | Some (Inl e) \<Rightarrow> Some (Inl e)
         | Some (Inr (t, tree, description, numTerminalNodes)) \<Rightarrow>
             create_mini_batch_loop fuel sfuel c t tree description numTerminalNodes)
      else Some (Inr (t, tree, description, numTerminalNodes)))"

text \<open>
  \<^verbatim>\<open>create_mini_batch\<close>; \<open>description\<close> stands for the contents of the local, which the
  source leaves uninitialised.
\<close>

definition create_mini_batch ::
  "nat \<Rightarrow> nat \<Rightarrow> 's Collab \<Rightarrow> 's SearchThread \<Rightarrow> Tree \<Rightarrow> NodeDescription \<Rightarrow>
     (error + ('s SearchThread \<times> Tree)) option" where
  "create_mini_batch fuel sfuel c t tree description =
     (case create_mini_batch_loop fuel sfuel c t tree description 0 of
        None \<Rightarrow> None
      | Some (Inl e) \<Rightarrow> Some (Inl e)
      | Some (Inr (t, tree, description, numTerminalNodes)) \<Rightarrow> Some (Inr (t, tree)))"

text \<open>
  The spec's words for the end of the assembly: one of the four limits is reached.
\<close>

definition stop_condition :: "'s SearchThread \<Rightarrow> nat \<Rightarrow> bool" where
  "stop_condition t numTerminalNodes =
     (fv_size (newNodes t) = batchSize (searchSettings t) \<or>
      length (collisionTrajectories t) = batchSize (searchSettings t) \<or>
      fv_size (transpositionValues t) = 2 * batchSize (searchSettings t) \<or>
      terminalNodeCache t \<le> numTerminalNodes)"

text \<open>The capacities and the terminal cache as the constructor sets them in two-player
  or single-player mode.\<close>

definition staging_sized :: "'s SearchThread \<Rightarrow> bool" where
  "staging_sized t =
     (capacity (newNodes t) = batchSize (searchSettings t) \<and>
      capacity (transpositionValues t) = 2 * batchSize (searchSettings t))"

subsection \<open>Network results and backup\<close>

definition node_assign_value ::
  "'s Collab \<Rightarrow> Node \<Rightarrow> (nat \<Rightarrow> real) \<Rightarrow> size_t \<Rightarrow> nat \<Rightarrow> bool \<Rightarrow> Node \<times> size_t" where
  "node_assign_value c node values hits batchIdx isRootNodeTB =
     (if is_tablebase c node then
        (if node_value node \<noteq> 0 \<and> isRootNodeTB
         then node\<lparr>node_value := (values batchIdx + node_value node) * (1 / 2)\<rparr>
         else node,
         hits + 1)
      else (node\<lparr>node_value := values batchIdx\<rparr>, hits))"

definition node_post_process_policy :: "'s Collab \<Rightarrow> Node \<Rightarrow> real \<Rightarrow> SearchSettings \<Rightarrow> Node" where
  "node_post_process_policy c node temperature settings =
     apply_temperature_to_prior_policy c temperature (enhance_moves c settings node)"

definition fill_nn_results ::
  "'s Collab \<Rightarrow> nat \<Rightarrow> bool \<Rightarrow> (nat \<Rightarrow> real) \<Rightarrow> (nat \<Rightarrow> real) \<Rightarrow> Node \<Rightarrow> size_t \<Rightarrow> bool \<Rightarrow>
     SearchSettings \<Rightarrow> bool \<Rightarrow> Node \<times> size_t" where
  "fill_nn_results c batchIdx isPolicyMap values probs node hits mirrorPolicy settings isRootNodeTB =
     (let node = set_probabilities_for_moves c (get_policy_data_batch c batchIdx probs isPolicyMap)
                   mirrorPolicy node;
          node = node_post_process_policy c node (nodePolicyTemperature settings) settings;
          (node, hits) = node_assign_value c node values hits batchIdx isRootNodeTB
      in (node\<lparr>has_nn_results := True\<rparr>, hits))"

text \<open>
  The loop of \<^verbatim>\<open>set_nn_results_to_child_nodes\<close> over the new nodes from \<open>batchIdx\<close> on.
  Reading \<^verbatim>\<open>newNodeSideToMove\<close> beyond its elements is the error \<open>OutOfRange\<close>.
\<close>

fun set_nn_results_loop ::
  "'s Collab \<Rightarrow> NodePtr list \<Rightarrow> nat \<Rightarrow> NeuralNetAPI \<Rightarrow> 's \<Rightarrow> NodePtr \<Rightarrow> 's SearchThread \<Rightarrow> Tree \<Rightarrow>
     error + ('s SearchThread \<times> Tree)" where
  "set_nn_results_loop c [] batchIdx net rs rootN t tree = Inr (t, tree)"
| "set_nn_results_loop c (node # rest) batchIdx net rs rootN t tree =
     (if batchIdx < fv_size (newNodeSideToMove t) then
        (let (n, hits) =
               fill_nn_results c batchIdx (is_policy_map net) (valueOutputs t) (probOutputs t)
                 (node_at tree node) (tbHits t)
                 (mirror_policy c rs (elems (newNodeSideToMove t) ! batchIdx))
                 (searchSettings t) (is_tablebase c (node_at tree rootN))
         in set_nn_results_loop c rest (batchIdx + 1) net rs rootN
              (t\<lparr>tbHits := hits\<rparr>) (set_node node n tree))
      else Inl OutOfRange)"

definition set_nn_results_to_child_nodes ::
  "'s Collab \<Rightarrow> 's SearchThread \<Rightarrow> Tree \<Rightarrow> error + ('s SearchThread \<times> Tree)" where
  "set_nn_results_to_child_nodes c t tree =
     (case (nets t, rootState t, rootNode t) of
        (net # _, Some rs, Some rootN) \<Rightarrow>
          set_nn_results_loop c (elems (newNodes t)) 0 net rs rootN t tree
      | ([], _, _) \<Rightarrow> (if elems (newNodes t) = [] then Inr (t, tree) else Inl EmptyRange)
      | (_, _, _) \<Rightarrow> (if elems (newNodes t) = [] then Inr (t, tree) else Inl NullPointer))"

text \<open>
  The two \<^verbatim>\<open>backup_values\<close>: the loop over the staged nodes (or values) from \<open>idx\<close> on.
  A trajectory missing at \<open>idx\<close> is the error \<open>OutOfRange\<close>.
\<close>

fun backup_nodes_loop ::
  "'s Collab \<Rightarrow> SearchSettings \<Rightarrow> NodePtr list \<Rightarrow> nat \<Rightarrow> Trajectory list \<Rightarrow> Tree \<Rightarrow> error + Tree" where
  "backup_nodes_loop c settings [] idx trajectories tree = Inr tree"
| "backup_nodes_loop c settings (node # rest) idx trajectories tree =
     (if idx < length trajectories then
        backup_nodes_loop c settings rest (idx + 1) trajectories
          (backup_value c False (node_value (node_at tree node)) settings (trajectories ! idx)
             (mctsSolver settings \<and> is_tablebase c (node_at tree node)) tree)
      else Inl OutOfRange)"

fun backup_floats_loop ::
  "'s Collab \<Rightarrow> SearchSettings \<Rightarrow> real list \<Rightarrow> nat \<Rightarrow> Trajectory list \<Rightarrow> Tree \<Rightarrow> error + Tree" where
  "backup_floats_loop c settings [] idx trajectories tree = Inr tree"
| "backup_floats_loop c settings (v # rest) idx trajectories tree =
     (if idx < length trajectories then
        backup_floats_loop c settings rest (idx + 1) trajectories
          (backup_value c True v settings (trajectories ! idx) False tree)
      else Inl OutOfRange)"

definition backup_values_nodes ::
  "'s Collab \<Rightarrow> SearchSettings \<Rightarrow> NodePtr FixedVector \<Rightarrow> Trajectory list \<Rightarrow> Tree \<Rightarrow>
     error + (NodePtr FixedVector \<times> Trajectory list \<times> Tree)" where
  "backup_values_nodes c settings staged trajectories tree =
     (case backup_nodes_loop c settings (elems staged) 0 trajectories tree of
        Inl e \<Rightarrow> Inl e
      | Inr tree \<Rightarrow> Inr (reset_idx staged, [], tree))"

definition backup_values_floats ::
  "'s Collab \<Rightarrow> SearchSettings \<Rightarrow> real FixedVector \<Rightarrow> Trajectory list \<Rightarrow> Tree \<Rightarrow>
     error + (real FixedVector \<times> Trajectory list \<times> Tree)" where
  "backup_values_floats c settings vals trajectories tree =
     (case backup_floats_loop c settings (elems vals) 0 trajectories tree of
        Inl e \<Rightarrow> Inl e
      | Inr tree \<Rightarrow> Inr (reset_idx vals, [], tree))"

definition backup_value_outputs ::
  "'s Collab \<Rightarrow> 's SearchThread \<Rightarrow> Tree \<Rightarrow> error + ('s SearchThread \<times> Tree)" where
  "backup_value_outputs c t tree =
     (case backup_values_nodes c (searchSettings t) (newNodes t) (newTrajectories t) tree of
        Inl e \<Rightarrow> Inl e
      | Inr (staged, trajectories, tree) \<Rightarrow>
          (let t = t\<lparr>newNodes := staged, newTrajectories := trajectories\<rparr>;
               t = t\<lparr>newNodeSideToMove := reset_idx (newNodeSideToMove t)\<rparr>
           in case backup_values_floats c (searchSettings t) (transpositionValues t)
                     (transpositionTrajectories t) tree of
                Inl e \<Rightarrow> Inl e
              | Inr (vals, trajectories, tree) \<Rightarrow>
                  Inr (t\<lparr>transpositionValues := vals, transpositionTrajectories := trajectories\<rparr>,
                       tree)))"

definition backup_collisions :: "'s Collab \<Rightarrow> 's SearchThread \<Rightarrow> Tree \<Rightarrow> 's SearchThread \<times> Tree" where
  "backup_collisions c t tree =
     (t\<lparr>collisionTrajectories := []\<rparr>,
      fold (backup_collision c (searchSettings t)) (collisionTrajectories t) tree)"

subsection \<open>The worker iteration\<close>

text \<open>\<^verbatim>\<open>std::max_element\<close> with the comparison of the counts: the first largest entry.\<close>

fun max_element_count :: "GamePhase \<times> nat \<Rightarrow> (GamePhase \<times> nat) list \<Rightarrow> GamePhase \<times> nat" where
  "max_element_count largest [] = largest"
| "max_element_count largest (p # rest) =
     max_element_count (if snd largest < snd p then p else largest) rest"

text \<open>
  \<^verbatim>\<open>select_nn_index\<close>: with one network it returns at once; otherwise it takes the
  majority phase, clears the histogram and looks the phase up (\<^verbatim>\<open>at\<close> throws when the
  phase has no network). An empty histogram has no largest entry.
\<close>

definition select_nn_index :: "'s SearchThread \<Rightarrow> error + (nat \<times> 's SearchThread)" where
  "select_nn_index t =
     (if length (nets t) = 1 then Inr (0, t)
      else
        (case phaseCountMap t of
           [] \<Rightarrow> Inl EmptyRange
         | p # rest \<Rightarrow>
             (let majorityPhase = fst (max_element_count p rest);
                  t = t\<lparr>phaseCountMap := []\<rparr>
              in case phaseToNetsIndex t majorityPhase of
                   None \<Rightarrow> Inl OutOfRange
                 | Some i \<Rightarrow> Inr (i, t))))"

definition query_network ::
  "'s Collab \<Rightarrow> 's SearchThread \<Rightarrow> Tree \<Rightarrow> error + ('s SearchThread \<times> Tree)" where
  "query_network c t tree =
     (if fv_size (newNodes t) \<noteq> 0 then
        (case select_nn_index t of
           Inl e \<Rightarrow> Inl e
         | Inr (i, t) \<Rightarrow>
             if i < length (nets t) then
               (let (v, p, a) = predict c i (inputPlanes t);
                    t = t\<lparr>valueOutputs := v, probOutputs := p, auxiliaryOutputs := a\<rparr>
                in set_nn_results_to_child_nodes c t tree)
             else Inl OutOfRange)
      else Inr (t, tree))"

definition thread_iteration ::
  "nat \<Rightarrow> nat \<Rightarrow> 's Collab \<Rightarrow> 's SearchThread \<Rightarrow> Tree \<Rightarrow> NodeDescription \<Rightarrow>
     (error + ('s SearchThread \<times> Tree)) option" where
  "thread_iteration fuel sfuel c t tree description =
     (case create_mini_batch fuel sfuel c t tree description of
        None \<Rightarrow> None
      | Some (Inl e) \<Rightarrow> Some (Inl e)
      | Some (Inr (t, tree)) \<Rightarrow>
          Some (case query_network c t tree of
                  Inl e \<Rightarrow> Inl e
                | Inr (t, tree) \<Rightarrow>
                    (case backup_value_outputs c t tree of
                       Inl e \<Rightarrow> Inl e
                     | Inr (t, tree) \<Rightarrow> Inr (backup_collisions c t tree))))"

subsection \<open>Frames and the spec's notions of the assembly\<close>

text \<open>
  What a selection leaves alone in the worker: the settings, the terminal cache, the
  nets, the staged new nodes, the capacity of the staged transposition values, and the three
  lists of trajectories. \<open>quiet_frame\<close> adds the phase histogram.
\<close>

definition selection_frame :: "'s SearchThread \<Rightarrow> 's SearchThread \<Rightarrow> bool" where
  "selection_frame t t' =
     (searchSettings t' = searchSettings t \<and> terminalNodeCache t' = terminalNodeCache t \<and>
      nets t' = nets t \<and> newNodes t' = newNodes t \<and>
      capacity (transpositionValues t') = capacity (transpositionValues t) \<and>
      collisionTrajectories t' = collisionTrajectories t \<and>
      newTrajectories t' = newTrajectories t \<and>
      transpositionTrajectories t' = transpositionTrajectories t)"

definition quiet_frame :: "'s SearchThread \<Rightarrow> 's SearchThread \<Rightarrow> bool" where
  "quiet_frame t t' = (selection_frame t t' \<and> phaseCountMap t' = phaseCountMap t)"

text \<open>
  The spec's words for the assembly loop, as a relation between the state at the head of
  the loop (worker, tree, description and number of terminal leaves found) and the state
  it ends in: a leaf is selected and dispatched as long as none of the four limits is
  reached, and the loop ends at the first state where one is.
\<close>

inductive assembly ::
  "nat \<Rightarrow> 's Collab \<Rightarrow> 's SearchThread \<times> Tree \<times> NodeDescription \<times> nat \<Rightarrow>
     's SearchThread \<times> Tree \<times> NodeDescription \<times> nat \<Rightarrow> bool"
  for sfuel :: nat and c :: "'s Collab" where
  stop: "stop_condition t n \<Longrightarrow> assembly sfuel c (t, tree, d, n) (t, tree, d, n)"
| select: "\<not> stop_condition t n \<Longrightarrow>
     mini_batch_pass sfuel c t tree d n = Some (Inr (t', tree', d', n')) \<Longrightarrow>
     assembly sfuel c (t', tree', d', n') s \<Longrightarrow>
     assembly sfuel c (t, tree, d, n) s"


subsection \<open>Concrete instances\<close>

definition ex_leaf :: Node where
  "ex_leaf = \<lparr>visits = 0, node_value = 0, children = [], no_visit_idx = 0,
     node_type = UNSOLVED, has_nn_results = False, is_terminal = False,
     is_transposition = False, was_inspected = False\<rparr>"

definition ex_settings :: SearchSettings where
  "ex_settings = \<lparr>batchSize = 2, searchPlayerMode = MODE_TWO_PLAYER,
     epsilonGreedyCounter = 0, epsilonChecksCounter = 0, mctsSolver = False,
     nodePolicyTemperature = 1, gamePhaseDefinition = 0\<rparr>"

definition ex_base :: "nat SearchThread" where
  "ex_base = \<lparr>nets = [\<lparr>is_policy_map = False, get_nb_input_values_total = 3, get_version = 1\<rparr>],
     numPhases = 1, phaseToNetsIndex = (\<lambda>p. if p = 0 then Some 0 else None),
     inputPlanes = (\<lambda>i. 0), valueOutputs = (\<lambda>i. 0), probOutputs = (\<lambda>i. 0),
     auxiliaryOutputs = (\<lambda>i. 0), phaseCountMap = [],
     rootNode = None, rootState = None, newState = None,
     newNodes = make_FixedVector 0, newNodeSideToMove = make_FixedVector 0,
     transpositionValues = make_FixedVector 0, isRunning = False,
     searchSettings = ex_settings, searchLimits = None,
     tbHits = 0, depthSum = 0, depthMax = 0, visitsPreSearch = 0,
     terminalNodeCache = 0, reachedTablebases = False,
     trajectoryBuffer = [], actionsBuffer = [],
     newTrajectories = [], transpositionTrajectories = [], collisionTrajectories = [],
     randCalls = 0\<rparr>"

definition ex_worker :: "nat SearchThread" where
  "ex_worker = SearchThread_ctor ex_base ex_settings"

text \<open>A tree whose every node is a fresh leaf, and the same tree after two visits of node 0.\<close>

definition ex_tree0 :: Tree where
  "ex_tree0 = \<lparr>node_at = (\<lambda>p. ex_leaf), hashTable = (\<lambda>h. None)\<rparr>"





text \<open>
  Collaborators for the instances. A game state is a number and an action adds to it; an
  action gives check when it is 6 more than the state. Attaching a child for the state 2 is
  a transposition to the node 50; for any other state a fresh node is made at the address
  after the parent's, terminal for the state 1.
\<close>

definition ex_link :: "Node \<Rightarrow> nat \<Rightarrow> NodePtr \<Rightarrow> Node" where
  "ex_link n i p = n\<lparr>children := (children n)[i := (fst (children n ! i), Some p)]\<rparr>"

definition ex_attach :: "nat \<Rightarrow> NodePtr \<Rightarrow> ChildIdx \<Rightarrow> SearchSettings \<Rightarrow> Tree \<Rightarrow> NodePtr \<times> bool \<times> Tree" where
  "ex_attach st parent idx settings tree =
     (if st = 2
      then (50, True, set_node parent (ex_link (node_at tree parent) (unat idx) 50) tree)
      else (Suc parent, False,
            set_node (Suc parent) (ex_leaf\<lparr>is_terminal := (st = 1), has_nn_results := (st = 1)\<rparr>)
              (set_node parent (ex_link (node_at tree parent) (unat idx) (Suc parent)) tree)))"

definition ex_collab :: "nat Collab" where
  "ex_collab = \<lparr>rand = (\<lambda>k. 0),
     select_child_node = (\<lambda>settings tree p. 0),
     apply_virtual_loss_to_child = (\<lambda>i settings p tree. tree),
     get_real_visits = (\<lambda>tree p i. 0),
     get_transposition_q_value = (\<lambda>settings tree p i v. 0),
     is_transposition_return = (\<lambda>tree p q. True),
     get_transposition_backup_value = (\<lambda>v q x. x),
     node_add_new_node_to_tree = ex_attach,
     is_fully_expanded = (\<lambda>n. no_visit_idx n = length (children n)),
     is_tablebase = (\<lambda>n. node_type n = TABLEBASE),
     get_best_action_index = (\<lambda>tree p b settings. 0),
     backup_value = (\<lambda>b v settings traj solve tree. tree),
     backup_collision = (\<lambda>settings traj tree. tree),
     get_policy_data_batch = (\<lambda>i probs m. []),
     set_probabilities_for_moves = (\<lambda>ps m n. n),
     enhance_moves = (\<lambda>settings n. n),
     apply_temperature_to_prior_policy = (\<lambda>x n. n),
     do_action = (\<lambda>a s. s + a),
     gives_check = (\<lambda>s a. a = s + 6),
     side_to_move = (\<lambda>s. s mod 2),
     mirror_policy = (\<lambda>s side. False),
     get_state_planes = (\<lambda>normalize s v. [1, 2, 3]),
     get_phase = (\<lambda>s n d. 0),
     predict = (\<lambda>i planes. ((\<lambda>k. 0), (\<lambda>k. 0), (\<lambda>k. 0)))\<rparr>"

text \<open>The worker with the root node 0 (on the fresh tree) and the root state 0.\<close>

definition ex_worker0 :: "nat SearchThread" where
  "ex_worker0 = set_root_state 0 (set_root_node 0 ex_tree0 ex_worker)"

text \<open>A playout node with the given children, none visited yet.\<close>

definition ex_parent :: "(Action \<times> NodePtr option) list \<Rightarrow> Node" where
  "ex_parent cs = ex_leaf\<lparr>children := cs, has_nn_results := True\<rparr>"

definition ex_tree_of :: "Node \<Rightarrow> Tree" where
  "ex_tree_of n = set_node 0 n ex_tree0"

text \<open>
  A fully expanded root whose only child, the node 1, is still waiting for its network
  results, and one whose only child is a solved playout node.
\<close>

definition ex_tree_pending :: Tree where
  "ex_tree_pending = ex_tree_of ((ex_parent [(3, Some 1)])\<lparr>no_visit_idx := 1\<rparr>)"


text \<open>
  A worker with batch size 1 and the root 0, and a tree whose root has one child slot, still
  empty, for the action 3.
\<close>

definition ex_worker1 :: "nat SearchThread" where
  "ex_worker1 =
     set_root_state 0 (set_root_node 0 ex_tree0 (SearchThread_ctor ex_base (ex_settings\<lparr>batchSize := 1\<rparr>)))"

definition ex_tree1 :: Tree where
  "ex_tree1 = ex_tree_of (ex_parent [(3, None)])"

definition ex_description :: NodeDescription where
  "ex_description = \<lparr>depth = 0, type = NODE_COLLISION\<rparr>"

text \<open>The same worker with two networks configured.\<close>

definition ex_worker2 :: "nat SearchThread" where
  "ex_worker2 = ex_worker1\<lparr>nets := nets ex_worker1 @ nets ex_worker1\<rparr>"

section \<open>Properties\<close>

subsection \<open>Arithmetic of the machine types\<close>

lemma trunc_of_int: "trunc (of_int k) = k"
  by (simp add: trunc_def)






lemma real_unat_max: "real (unat (ds :: size_t)) \<le> 2 ^ 64 - 1"
proof -
  have "unat ds < 2 ^ 64" using unsigned_less [of ds] by simp
  then have "unat ds \<le> 2 ^ 64 - 1" by simp
  then have "real (unat ds) \<le> real (2 ^ 64 - 1)" by (simp only: of_nat_le_iff)
  then show ?thesis by simp
qed

subsection \<open>The constructor\<close>

text \<open>
  C7: after construction \<^verbatim>\<open>terminalNodeCache\<close> is 1 in single-player mode and twice the
  batch size in two-player mode; entering the \<^verbatim>\<open>switch\<close> at the single-player label and
  falling through the two-player label does not change the two-player result.
\<close>

theorem ctor_terminalNodeCache:
  "terminalNodeCache (SearchThread_ctor base s) =
     (case searchPlayerMode s of MODE_SINGLE_PLAYER \<Rightarrow> 1 | MODE_TWO_PLAYER \<Rightarrow> 2 * batchSize s)"
  by (cases "searchPlayerMode s") (simp_all add: SearchThread_ctor_def)

theorem ctor_terminalNodeCache_witness:
  "terminalNodeCache (SearchThread_ctor ex_base ex_settings) = 4 \<and>
   terminalNodeCache (SearchThread_ctor ex_base (ex_settings\<lparr>searchPlayerMode := MODE_SINGLE_PLAYER\<rparr>)) = 1"
  unfolding ctor_terminalNodeCache by (simp add: ex_settings_def)

lemma ctor_staging_sized: "staging_sized (SearchThread_ctor base s)"
  by (cases "searchPlayerMode s") (simp_all add: staging_sized_def SearchThread_ctor_def make_FixedVector_def)

lemma ctor_staging_empty:
  "elems (newNodes (SearchThread_ctor base s)) = [] \<and>
   elems (newNodeSideToMove (SearchThread_ctor base s)) = [] \<and>
   elems (transpositionValues (SearchThread_ctor base s)) = [] \<and>
   newTrajectories (SearchThread_ctor base s) = [] \<and>
   transpositionTrajectories (SearchThread_ctor base s) = [] \<and>
   collisionTrajectories (SearchThread_ctor base s) = [] \<and>
   phaseCountMap (SearchThread_ctor base s) = []"
  by (cases "searchPlayerMode s") (simp_all add: SearchThread_ctor_def make_FixedVector_def)

subsection \<open>The random depth\<close>

lemma log_bounds:
  assumes "1 / 100 \<le> x" and "x < (1::real)"
  shows "- 1 < - log 2 x - 1" and "- log 2 x - 1 < 6"
proof -
  have pos: "0 < x" using assms by simp
  have "log 2 x < log 2 1" using assms pos by (subst log_less_cancel_iff) simp_all
  then show "- 1 < - log 2 x - 1" by simp
  have "(2::real) powr (-7) < x" using assms by (simp add: powr_minus)
  then have "log 2 (2 powr (-7)) < log 2 x" using pos by (subst log_less_cancel_iff) simp_all
  then show "- log 2 x - 1 < 6" by simp
qed

text \<open>
  In the 99 buckets \<open>U = 0.01, ..., 0.99\<close> the depth is \<open>\<lceil>- log\<^sub>2 (1 - U) - 1\<rceil>\<close>, a number
  between 0 and 6.
\<close>

lemma get_random_depth_other_buckets:
  assumes "r mod 100 \<noteq> 99"
  shows "get_random_depth r =
     Inr (word_of_int \<lceil>- log 2 (1 - real (r mod 100 + 1) / 100) - 1\<rceil>)"
    and "\<lceil>- log 2 (1 - real (r mod 100 + 1) / 100) - 1\<rceil> \<in> {0..6}"
proof -
  let ?k = "r mod 100 + 1"
  let ?x = "1 - real ?k / 100"
  let ?c = "\<lceil>- log 2 ?x - 1\<rceil>"
  have "r mod 100 < 100" by simp
  with assms have k: "?k \<le> 99" by linarith
  then have "real ?k \<le> 99" by (metis of_nat_le_iff of_nat_numeral)
  then have x: "1 / 100 \<le> ?x" "?x < 1" by simp_all
  have lo: "- 1 < - log 2 ?x - 1" and hi: "- log 2 ?x - 1 < 6"
    using log_bounds [OF x] by simp_all
  have c0: "0 \<le> ?c" using lo by linarith
  have c6: "?c \<le> 6" using hi by linarith
  show "?c \<in> {0..6}" using c0 c6 by simp
  have big: "?c < 2 ^ 64" using c6 by simp
  have xpos: "0 < ?x" using x by linarith
  have e1: "d_sub (Finite 1) (Finite (real ?k / 100)) = Finite ?x" by simp
  have e2: "d_log2 (Finite ?x) = Finite (log 2 ?x)" using xpos by (simp only: d_log2.simps if_True)
  have e3: "d_ceil (d_sub (d_neg (Finite (log 2 ?x))) (Finite 1)) = Finite (of_int ?c)"
    by (simp only: d_neg.simps d_sub.simps d_ceil.simps)
  have e4: "to_size_t (Finite (of_int ?c)) = Inr (word_of_int ?c)"
    using c0 big by (simp only: to_size_t.simps trunc_of_int) simp
  show "get_random_depth r = Inr (word_of_int ?c)"
    unfolding get_random_depth_def Let_def e1 e2 e3 e4 ..
qed

lemma get_random_depth_unit_bucket:
  assumes "r mod 100 = 99"
  shows "get_random_depth r = Inl UndefinedConversion"
  using assms by (simp add: get_random_depth_def)

text \<open>
  C8: the claim has the depth well defined and finite in each of the 100 buckets. In the
  bucket \<open>U = 1.00\<close> (\<^verbatim>\<open>rand() % 100 = 99\<close>) the source takes \<^verbatim>\<open>log2(0)\<close>: the value is
  minus infinity, the ceiling is plus infinity, and its conversion to \<^verbatim>\<open>size_t\<close> is
  undefined. The depth is undefined in exactly that bucket.
\<close>

theorem get_random_depth_undefined_iff:
  "(get_random_depth r = Inl UndefinedConversion) = (r mod 100 = 99)"
proof (cases "r mod 100 = 99")
  case True
  then show ?thesis using get_random_depth_unit_bucket by simp
next
  case False
  then show ?thesis using get_random_depth_other_buckets(1) [OF False] by simp
qed

theorem get_random_depth_undefined_witness:
  "get_random_depth 99 = Inl UndefinedConversion"
  by (rule iffD2 [OF get_random_depth_undefined_iff]) simp

subsection \<open>Rounding to binary64\<close>




lemma round_even_of_int [simp]: "round_even (of_int m) = m"
  by (simp add: round_even_def)

lemma ulp_pos: "0 < ulp x"
  by (simp add: ulp_def)






lemma log2_less:
  assumes "0 < x" and "x < 2 ^ n"
  shows "log 2 x < real n"
proof -
  have "log 2 x < log 2 (2 ^ n)" using assms by (subst log_less_cancel_iff) simp_all
  then show ?thesis by simp
qed


lemma ulp_inverse_power:
  assumes "0 < x" and "\<lfloor>log 2 x\<rfloor> \<le> 52 - int p"
  shows "\<exists>m. ulp x = 1 / 2 ^ (p + m)"
proof -
  define m where "m = nat (52 - int p - \<lfloor>log 2 x\<rfloor>)"
  have e: "\<lfloor>log 2 x\<rfloor> - 52 = - int (p + m)" using assms(2) by (simp add: m_def)
  have "ulp x = 2 powr (- real (p + m))"
    using assms(1) unfolding ulp_def abs_of_pos [OF assms(1)] e by simp
  also have "\<dots> = inverse (2 powr real (p + m))" by (rule powr_minus)
  also have "2 powr real (p + m) = 2 ^ (p + m)" by (rule powr_realpow) simp
  finally have "ulp x = 1 / 2 ^ (p + m)" by (simp add: divide_inverse)
  then show ?thesis by blast
qed

lemma rnd_exact:
  assumes "x \<noteq> 0" and "x / ulp x = of_int m"
  shows "rnd x = x"
proof -
  have "x = of_int m * ulp x" using assms(2) ulp_pos [of x] by (simp add: field_simps)
  then show ?thesis using assms by (simp add: rnd_def)
qed

lemma rnd_dyadic:
  assumes "j < 2 ^ 53"
  shows "rnd (real j / 2 ^ p) = real j / 2 ^ p"
proof (cases "j = 0")
  case True
  then show ?thesis by (simp add: rnd_def)
next
  case False
  define x where "x = real j / 2 ^ p"
  have xpos: "0 < x" using False by (simp add: x_def)
  have "real j < 2 ^ 53" using assms by (metis of_nat_less_iff of_nat_numeral of_nat_power)
  then have "x * 2 ^ p < 2 ^ 53" by (simp add: x_def)
  have lg: "log 2 x = log 2 (real j) - real p"
    using False by (simp add: x_def log_divide)
  have "log 2 (real j) < real 53"
    using False \<open>real j < 2 ^ 53\<close> by (intro log2_less) simp_all
  then have "log 2 (real j) < 53" by simp
  then have "log 2 x < 53 - real p" using lg by simp
  then have "\<lfloor>log 2 x\<rfloor> < 53 - int p" by (simp add: floor_less_iff)
  then have "\<lfloor>log 2 x\<rfloor> \<le> 52 - int p" by simp
  then obtain m where u: "ulp x = 1 / 2 ^ (p + m)" using ulp_inverse_power [OF xpos] by blast
  have "x / ulp x = x * 2 ^ (p + m)" by (simp add: u)
  also have "\<dots> = real j * 2 ^ m" by (simp add: x_def power_add)
  also have "\<dots> = of_int (int j * 2 ^ m)" by simp
  finally have "x / ulp x = of_int (int j * 2 ^ m)" .
  moreover have "x \<noteq> 0" using xpos by simp
  ultimately have "rnd x = x" by (intro rnd_exact)
  then show ?thesis by (simp add: x_def)
qed

lemma rnd_nat: "n < 2 ^ 53 \<Longrightarrow> rnd (real n) = real n"
  using rnd_dyadic [of n 0] by simp






lemma floor_log2_binade:
  assumes "2 ^ e \<le> x" and "x < 2 ^ Suc e"
  shows "\<lfloor>log 2 x\<rfloor> = int e"
proof -
  have "(0 :: real) < 2 ^ e" by simp
  then have x: "0 < x" using assms(1) by linarith
  have "log 2 (2 ^ e) \<le> log 2 x" using assms(1) x by (subst log_le_cancel_iff) simp_all
  then have lo: "real e \<le> log 2 x" by simp
  have hi: "log 2 x < real (Suc e)" using x assms(2) by (rule log2_less)
  show ?thesis using lo hi by (intro floor_unique) simp_all
qed

lemma rnd_binade:
  assumes "2 ^ (52 + m) \<le> x" and "x < 2 ^ Suc (52 + m)"
  shows "rnd x = of_int (round_even (x / 2 ^ m)) * 2 ^ m"
proof -
  have "(0 :: real) < 2 ^ (52 + m)" by simp
  then have x: "0 < x" using assms(1) by linarith
  have "\<lfloor>log 2 x\<rfloor> = int (52 + m)" using assms by (rule floor_log2_binade)
  then have "ulp x = 2 powr real m" using x by (simp add: ulp_def)
  also have "\<dots> = 2 ^ m" by (rule powr_realpow) simp
  finally show ?thesis using x by (simp add: rnd_def)
qed

lemma rnd_one: "rnd 1 = 1"
  using rnd_nat [of 1] by simp

subsection \<open>The average depth\<close>






lemma get_avg_depth_root:
  assumes "rootNode t = Some r"
  shows "get_avg_depth t tree =
     (if ucast (get_visits (node_at tree r)) = visitsPreSearch t then Inl DivisionByZero
      else to_size_t (Finite (rnd (rnd (rnd (real (unat (depthSum t))) /
             rnd (real (unat ((ucast (get_visits (node_at tree r)) :: size_t) - visitsPreSearch t)))) + 1 / 2))))"
  using assms by (simp add: get_avg_depth_def Let_def del: of_nat_unat)




















text \<open>
  The bound on \<^verbatim>\<open>depthSum\<close> is needed for a value: with the largest sum and one visit the
  rounded result is 2 to the power 64, which is not a value of \<^verbatim>\<open>size_t\<close>.
\<close>

lemma rnd_full_sum: "rnd 18446744073709551615 = 18446744073709551616"
proof -
  have "rnd 18446744073709551615 = of_int (round_even (18446744073709551615 / 2 ^ 11)) * 2 ^ 11"
    by (rule rnd_binade) simp_all
  moreover have "round_even (18446744073709551615 / 2048) = 9007199254740992"
    by (simp add: round_even_def)
  ultimately show ?thesis by simp
qed

lemma rnd_full_quotient: "rnd 18446744073709551616 = 18446744073709551616"
proof -
  have "rnd 18446744073709551616 = of_int (round_even (18446744073709551616 / 2 ^ 12)) * 2 ^ 12"
    by (rule rnd_binade) simp_all
  moreover have "round_even (18446744073709551616 / 4096) = 4503599627370496"
    by (simp add: round_even_def)
  ultimately show ?thesis by simp
qed

lemma rnd_full_half: "rnd (36893488147419103233 / 2) = 18446744073709551616"
proof -
  have "rnd (36893488147419103233 / 2) = of_int (round_even (36893488147419103233 / 2 / 2 ^ 12)) * 2 ^ 12"
    by (rule rnd_binade) simp_all
  moreover have "round_even (36893488147419103233 / 2 / 4096) = 4503599627370496"
    by (simp add: round_even_def)
  ultimately show ?thesis by simp
qed

lemma get_avg_depth_undefined_conversion:
  assumes "rootNode t = Some r"
    and "depthSum t = - 1"
    and "get_visits (node_at tree r) = 1"
    and "visitsPreSearch t = 0"
  shows "get_avg_depth t tree = Inl UndefinedConversion"
proof -
  have "unat (- 1 :: size_t) = 18446744073709551615"
    by (simp add: unsigned_minus_1_eq_mask mask_eq_exp_minus_1)
  then have "real (unat (depthSum t)) = 18446744073709551615"
    unfolding assms(2) by (simp del: of_nat_unat)
  then show ?thesis
    unfolding get_avg_depth_root [OF assms(1)] assms(3,4)
    by (simp add: rnd_full_sum rnd_one rnd_full_quotient rnd_full_half trunc_def del: of_nat_unat)
qed

subsection \<open>The check probe\<close>

lemma scan_checks_Some:
  "scan_checks chk node v = Some i \<Longrightarrow>
     v \<le> i \<and> i < get_number_child_nodes node \<and> chk (get_action node i) \<and>
     (\<forall>j. v \<le> j \<and> j < i \<longrightarrow> \<not> chk (get_action node j))"
proof (induction chk node v rule: scan_checks.induct)
  case (1 chk node v)
  show ?case
  proof (cases "v < get_number_child_nodes node \<and> \<not> chk (get_action node v)")
    case True
    then have "scan_checks chk node (v + 1) = Some i"
      using "1.prems" by (simp add: scan_checks.simps [of chk node v])
    then have ih: "v + 1 \<le> i \<and> i < get_number_child_nodes node \<and> chk (get_action node i) \<and>
        (\<forall>j. v + 1 \<le> j \<and> j < i \<longrightarrow> \<not> chk (get_action node j))"
      using "1.IH" True by simp
    have "\<not> chk (get_action node j)" if "v \<le> j" "j < i" for j
    proof (cases "j = v")
      case True
      then show ?thesis using \<open>v < get_number_child_nodes node \<and> \<not> chk (get_action node v)\<close> by simp
    next
      case False
      then show ?thesis using ih that by simp
    qed
    then show ?thesis using ih by simp
  next
    case False
    then show ?thesis
      using "1.prems" by (auto simp: scan_checks.simps [of chk node v] split: if_splits)
  qed
qed

lemma scan_checks_None:
  "scan_checks chk node v = None \<Longrightarrow>
     (\<forall>j. v \<le> j \<and> j < get_number_child_nodes node \<longrightarrow> \<not> chk (get_action node j))"
proof (induction chk node v rule: scan_checks.induct)
  case (1 chk node v)
  show ?case
  proof (cases "v < get_number_child_nodes node")
    case True
    then have nchk: "\<not> chk (get_action node v)" and rest: "scan_checks chk node (v + 1) = None"
      using "1.prems" by (auto simp: scan_checks.simps [of chk node v] split: if_splits)
    have ih: "\<forall>j. v + 1 \<le> j \<and> j < get_number_child_nodes node \<longrightarrow> \<not> chk (get_action node j)"
      using "1.IH" True nchk rest by simp
    have "\<not> chk (get_action node j)" if "v \<le> j" "j < get_number_child_nodes node" for j
    proof (cases "j = v")
      case True
      then show ?thesis using nchk by simp
    next
      case False
      then show ?thesis using ih that by simp
    qed
    then show ?thesis by simp
  next
    case False
    then show ?thesis by (auto simp: not_less)
  qed
qed

lemma scan_checks_first:
  assumes "scan_checks chk node v = r"
  shows "(case r of
            Some i \<Rightarrow> v \<le> i \<and> i < get_number_child_nodes node \<and> chk (get_action node i) \<and>
                      (\<forall>j. v \<le> j \<and> j < i \<longrightarrow> \<not> chk (get_action node j))
          | None \<Rightarrow> (\<forall>j. v \<le> j \<and> j < get_number_child_nodes node \<longrightarrow> \<not> chk (get_action node j)))"
  using assms scan_checks_Some [of chk node v] scan_checks_None [of chk node v]
  by (cases r) auto

lemma scan_checks_eq_Some:
  assumes "v \<le> i" and "i < get_number_child_nodes node" and "chk (get_action node i)"
    and "\<forall>j. v \<le> j \<and> j < i \<longrightarrow> \<not> chk (get_action node j)"
  shows "scan_checks chk node v = Some i"
proof (cases "scan_checks chk node v")
  case None
  then show ?thesis using scan_checks_None [OF None] assms by auto
next
  case (Some k)
  have k: "v \<le> k \<and> k < get_number_child_nodes node \<and> chk (get_action node k) \<and>
     (\<forall>j. v \<le> j \<and> j < k \<longrightarrow> \<not> chk (get_action node j))"
    using scan_checks_Some [OF Some] .
  have "\<not> k < i" using k assms(4) by auto
  moreover have "\<not> i < k" using k assms(1,3) by auto
  ultimately show ?thesis using Some by simp
qed

lemma scan_checks_eq_None:
  assumes "\<forall>j. v \<le> j \<and> j < get_number_child_nodes node \<longrightarrow> \<not> chk (get_action node j)"
  shows "scan_checks chk node v = None"
proof (cases "scan_checks chk node v")
  case None
  then show ?thesis .
next
  case (Some k)
  then show ?thesis using scan_checks_Some [OF Some] assms by auto
qed

lemma increment_children [simp]: "children (increment_no_visit_idx node) = children node"
  by (simp add: increment_no_visit_idx_def)

lemma increment_number [simp]:
  "get_number_child_nodes (increment_no_visit_idx node) = get_number_child_nodes node"
  by (simp add: get_number_child_nodes_def)

lemma advance_no_visit_idx_eq:
  "idx \<le> bound \<Longrightarrow> no_visit_idx node + (bound - idx) \<le> get_number_child_nodes node \<Longrightarrow>
     advance_no_visit_idx idx bound node = node\<lparr>no_visit_idx := no_visit_idx node + (bound - idx)\<rparr>"
proof (induction idx bound node rule: advance_no_visit_idx.induct)
  case (1 idx bound node)
  show ?case
  proof (cases "idx < bound")
    case True
    then have lt: "no_visit_idx node < get_number_child_nodes node" using "1.prems" by linarith
    then have inc: "increment_no_visit_idx node = node\<lparr>no_visit_idx := no_visit_idx node + 1\<rparr>"
      by (simp add: increment_no_visit_idx_def)
    have "advance_no_visit_idx (idx + 1) bound (increment_no_visit_idx node) =
            (increment_no_visit_idx node)\<lparr>no_visit_idx :=
               no_visit_idx (increment_no_visit_idx node) + (bound - (idx + 1))\<rparr>"
      using "1.IH" [OF True] True "1.prems" inc by (simp add: get_number_child_nodes_def)
    then show ?thesis
      using True inc "1.prems" by (simp add: advance_no_visit_idx.simps [of idx bound node])
  next
    case False
    then have "idx = bound" using "1.prems" by simp
    then show ?thesis by (simp add: advance_no_visit_idx.simps [of bound bound node])
  qed
qed

lemma childidx_of_nat:
  assumes "i < 65535"
  shows "unat (word_of_nat i :: ChildIdx) = i" and "(word_of_nat i :: ChildIdx) \<noteq> sentinel"
proof -
  show u: "unat (word_of_nat i :: ChildIdx) = i" using assms by (simp add: unat_of_nat)
  have "unat sentinel = 65535" by (simp add: sentinel_def unsigned_minus_1_eq_mask mask_eq_exp_minus_1)
  then show "(word_of_nat i :: ChildIdx) \<noteq> sentinel" using u assms by auto
qed

lemma select_enhanced_move_inspected:
  "was_inspected (node_at tree cur) \<Longrightarrow> select_enhanced_move c t tree cur = Inr (sentinel, tree)"
  by (simp add: select_enhanced_move_def)

text \<open>
  C6: on a playout node that is not terminal and not yet inspected (with at most 65535
  children, so that an index fits \<^verbatim>\<open>ChildIdx\<close>), \<^verbatim>\<open>select_enhanced_move\<close> returns the
  first index \<open>i\<close> from \<^verbatim>\<open>no_visit_idx\<close> on whose action gives check in the replayed
  position and leaves \<^verbatim>\<open>no_visit_idx = i + 1\<close>; when no such child gives check it marks
  the node inspected and returns the sentinel, and any later probe of that node returns the
  sentinel and changes nothing, whatever the worker's state and root state are.
\<close>

theorem select_enhanced_move_probe:
  assumes "is_playout_node (node_at tree cur)" and "\<not> was_inspected (node_at tree cur)"
    and "\<not> is_terminal (node_at tree cur)" and "rootState t = Some rs"
    and "get_number_child_nodes (node_at tree cur) \<le> 65535"
  shows
    "(\<forall>i. no_visit_idx (node_at tree cur) \<le> i \<and> i < get_number_child_nodes (node_at tree cur) \<and>
          gives_check c (fold (do_action c) (actionsBuffer t) rs) (get_action (node_at tree cur) i) \<and>
          (\<forall>j. no_visit_idx (node_at tree cur) \<le> j \<and> j < i \<longrightarrow>
             \<not> gives_check c (fold (do_action c) (actionsBuffer t) rs) (get_action (node_at tree cur) j))
        \<longrightarrow> select_enhanced_move c t tree cur =
              Inr (word_of_nat i, set_node cur ((node_at tree cur)\<lparr>no_visit_idx := i + 1\<rparr>) tree) \<and>
            unat (word_of_nat i :: ChildIdx) = i \<and> (word_of_nat i :: ChildIdx) \<noteq> sentinel) \<and>
     ((\<forall>j. no_visit_idx (node_at tree cur) \<le> j \<and> j < get_number_child_nodes (node_at tree cur) \<longrightarrow>
             \<not> gives_check c (fold (do_action c) (actionsBuffer t) rs) (get_action (node_at tree cur) j))
        \<longrightarrow> select_enhanced_move c t tree cur =
              Inr (sentinel, set_node cur ((node_at tree cur)\<lparr>was_inspected := True\<rparr>) tree) \<and>
            (\<forall>c' t'. select_enhanced_move c' (t' :: 's SearchThread)
                       (set_node cur ((node_at tree cur)\<lparr>was_inspected := True\<rparr>) tree) cur =
              Inr (sentinel, set_node cur ((node_at tree cur)\<lparr>was_inspected := True\<rparr>) tree)))"
proof (intro conjI allI impI)
  fix i
  assume h: "no_visit_idx (node_at tree cur) \<le> i \<and> i < get_number_child_nodes (node_at tree cur) \<and>
          gives_check c (fold (do_action c) (actionsBuffer t) rs) (get_action (node_at tree cur) i) \<and>
          (\<forall>j. no_visit_idx (node_at tree cur) \<le> j \<and> j < i \<longrightarrow>
             \<not> gives_check c (fold (do_action c) (actionsBuffer t) rs) (get_action (node_at tree cur) j))"
  then have sc: "scan_checks (gives_check c (fold (do_action c) (actionsBuffer t) rs)) (node_at tree cur)
           (no_visit_idx (node_at tree cur)) = Some i"
    by (intro scan_checks_eq_Some) simp_all
  have "advance_no_visit_idx (no_visit_idx (node_at tree cur)) (i + 1) (node_at tree cur) =
        (node_at tree cur)\<lparr>no_visit_idx := i + 1\<rparr>"
    using advance_no_visit_idx_eq [of "no_visit_idx (node_at tree cur)" "i + 1" "node_at tree cur"] h
    by simp
  then show "select_enhanced_move c t tree cur =
              Inr (word_of_nat i, set_node cur ((node_at tree cur)\<lparr>no_visit_idx := i + 1\<rparr>) tree)"
    using assms sc by (simp add: select_enhanced_move_def)
  have "i < 65535" using h assms(5) by linarith
  then show "unat (word_of_nat i :: ChildIdx) = i" and "(word_of_nat i :: ChildIdx) \<noteq> sentinel"
    by (rule childidx_of_nat)+
next
  assume h: "\<forall>j. no_visit_idx (node_at tree cur) \<le> j \<and> j < get_number_child_nodes (node_at tree cur) \<longrightarrow>
             \<not> gives_check c (fold (do_action c) (actionsBuffer t) rs) (get_action (node_at tree cur) j)"
  then have sc: "scan_checks (gives_check c (fold (do_action c) (actionsBuffer t) rs)) (node_at tree cur)
           (no_visit_idx (node_at tree cur)) = None"
    by (rule scan_checks_eq_None)
  show "select_enhanced_move c t tree cur =
          Inr (sentinel, set_node cur ((node_at tree cur)\<lparr>was_inspected := True\<rparr>) tree)"
    using assms sc by (simp add: select_enhanced_move_def set_as_inspected_def)
next
  fix c' :: "'s Collab" and t' :: "'s SearchThread"
  show "select_enhanced_move c' t' (set_node cur ((node_at tree cur)\<lparr>was_inspected := True\<rparr>) tree) cur =
          Inr (sentinel, set_node cur ((node_at tree cur)\<lparr>was_inspected := True\<rparr>) tree)"
    by (rule select_enhanced_move_inspected) (simp add: set_node_def)
qed

lemma ex_worker0_rootState: "rootState ex_worker0 = Some 0"
  by (simp add: ex_worker0_def set_root_state_def)

lemma ex_worker0_actions: "actionsBuffer ex_worker0 = []"
  by (simp add: ex_worker0_def set_root_state_def set_root_node_def ex_worker_def SearchThread_ctor_def
      ex_settings_def)

lemma ex_tree_of_root: "node_at (ex_tree_of n) 0 = n"
  by (simp add: ex_tree_of_def set_node_def)

theorem select_enhanced_move_probe_witness:
  "select_enhanced_move ex_collab ex_worker0 (ex_tree_of (ex_parent [(5, None), (6, None), (7, None)])) 0 =
     Inr (1, set_node 0 ((ex_parent [(5, None), (6, None), (7, None)])\<lparr>no_visit_idx := 2\<rparr>)
               (ex_tree_of (ex_parent [(5, None), (6, None), (7, None)]))) \<and>
   select_enhanced_move ex_collab ex_worker0 (ex_tree_of (ex_parent [(5, None), (7, None)])) 0 =
     Inr (sentinel, set_node 0 ((ex_parent [(5, None), (7, None)])\<lparr>was_inspected := True\<rparr>)
               (ex_tree_of (ex_parent [(5, None), (7, None)])))"
proof
  let ?n = "ex_parent [(5, None), (6, None), (7, None)]"
  have pre: "is_playout_node (node_at (ex_tree_of ?n) 0)" "\<not> was_inspected (node_at (ex_tree_of ?n) 0)"
    "\<not> is_terminal (node_at (ex_tree_of ?n) 0)" "get_number_child_nodes (node_at (ex_tree_of ?n) 0) \<le> 65535"
    by (simp_all add: ex_tree_of_root ex_parent_def ex_leaf_def is_playout_node_def get_number_child_nodes_def)
  have first: "no_visit_idx (node_at (ex_tree_of ?n) 0) \<le> 1 \<and> 1 < get_number_child_nodes (node_at (ex_tree_of ?n) 0) \<and>
      gives_check ex_collab (fold (do_action ex_collab) (actionsBuffer ex_worker0) 0) (get_action (node_at (ex_tree_of ?n) 0) 1) \<and>
      (\<forall>j. no_visit_idx (node_at (ex_tree_of ?n) 0) \<le> j \<and> j < 1 \<longrightarrow>
         \<not> gives_check ex_collab (fold (do_action ex_collab) (actionsBuffer ex_worker0) 0) (get_action (node_at (ex_tree_of ?n) 0) j))"
    by (simp add: ex_tree_of_root ex_parent_def ex_leaf_def get_number_child_nodes_def get_action_def
        ex_worker0_actions ex_collab_def)
  show "select_enhanced_move ex_collab ex_worker0 (ex_tree_of ?n) 0 =
     Inr (1, set_node 0 (?n\<lparr>no_visit_idx := 2\<rparr>) (ex_tree_of ?n))"
    using mp [OF spec [OF conjunct1 [OF select_enhanced_move_probe
            [OF pre(1,2,3) ex_worker0_rootState pre(4), of ex_collab]], where x = 1] first]
    by (simp add: ex_tree_of_root numeral_2_eq_2)
next
  let ?n = "ex_parent [(5, None), (7, None)]"
  have pre: "is_playout_node (node_at (ex_tree_of ?n) 0)" "\<not> was_inspected (node_at (ex_tree_of ?n) 0)"
    "\<not> is_terminal (node_at (ex_tree_of ?n) 0)" "get_number_child_nodes (node_at (ex_tree_of ?n) 0) \<le> 65535"
    by (simp_all add: ex_tree_of_root ex_parent_def ex_leaf_def is_playout_node_def get_number_child_nodes_def)
  have none: "\<forall>j. no_visit_idx (node_at (ex_tree_of ?n) 0) \<le> j \<and> j < get_number_child_nodes (node_at (ex_tree_of ?n) 0) \<longrightarrow>
         \<not> gives_check ex_collab (fold (do_action ex_collab) (actionsBuffer ex_worker0) 0) (get_action (node_at (ex_tree_of ?n) 0) j)"
    by (auto simp: ex_tree_of_root ex_parent_def ex_leaf_def get_number_child_nodes_def get_action_def
        ex_worker0_actions ex_collab_def less_Suc_eq)
  show "select_enhanced_move ex_collab ex_worker0 (ex_tree_of ?n) 0 =
     Inr (sentinel, set_node 0 (?n\<lparr>was_inspected := True\<rparr>) (ex_tree_of ?n))"
    using conjunct1 [OF mp [OF conjunct2 [OF select_enhanced_move_probe
            [OF pre(1,2,3) ex_worker0_rootState pre(4), of ex_collab]] none]]
    unfolding ex_tree_of_root .
qed

subsection \<open>Random playouts\<close>





lemma ex_tree_pending_nodes:
  "node_at ex_tree_pending 0 = (ex_parent [(3, Some 1)])\<lparr>no_visit_idx := 1\<rparr>"
  "node_at ex_tree_pending 1 = ex_leaf"
  "node_at ex_tree_pending (Suc 0) = ex_leaf"
  by (simp_all add: ex_tree_pending_def ex_tree_of_def set_node_def ex_tree0_def)




subsection \<open>Selection of an existing child\<close>

text \<open>
  C1: a pass of the selection loop chooses the child index \<open>idx\<close>, applies the virtual
  loss, records the edge and counts the depth; when the child fetched then exists, the pass
  returns it as \<^verbatim>\<open>NODE_TERMINAL\<close> if it is terminal; else as \<^verbatim>\<open>NODE_COLLISION\<close> if it
  has no network results yet; else, if it is flagged as a transposition and
  \<^verbatim>\<open>is_transposition_return\<close> accepts the transposition Q value, as
  \<^verbatim>\<open>NODE_TRANSPOSITION\<close> with the backup value appended to \<^verbatim>\<open>transpositionValues\<close>;
  else the loop goes on from the child with its action recorded and no child index chosen.
\<close>

theorem select_loop_existing_child:
  assumes "idx = (if childIdx = sentinel then select_child_node c (searchSettings t) tree cur else childIdx)"
    and "tree' = apply_virtual_loss_to_child c idx (searchSettings t) cur tree"
    and "t' = t\<lparr>trajectoryBuffer := trajectoryBuffer t @ [(cur, idx)]\<rparr>"
    and "d' = description\<lparr>depth := depth description + 1\<rparr>"
    and "get_child_node (node_at tree' cur) (unat idx) = Some nextNode"
    and "transposVisits = get_real_visits c tree' cur idx"
    and "transposQValue = get_transposition_q_value c (searchSettings t) tree' cur idx transposVisits"
  shows "select_loop (Suc fuel) c t tree cur childIdx description =
     (if is_terminal (node_at tree' nextNode)
      then Some (Inr (nextNode, d'\<lparr>type := NODE_TERMINAL\<rparr>, t', tree'))
      else if \<not> has_nn_results (node_at tree' nextNode)
      then Some (Inr (nextNode, d'\<lparr>type := NODE_COLLISION\<rparr>, t', tree'))
      else if is_transposition (node_at tree' nextNode) \<and>
              is_transposition_return c tree' nextNode transposQValue
      then Some (Inr (nextNode, d'\<lparr>type := NODE_TRANSPOSITION\<rparr>,
                      t'\<lparr>transpositionValues :=
                           add_element (get_transposition_backup_value c transposVisits transposQValue
                                          (node_value (node_at tree' nextNode)))
                             (transpositionValues t)\<rparr>,
                      tree'))
      else select_loop fuel c
             (t'\<lparr>actionsBuffer := actionsBuffer t @ [get_action (node_at tree' cur) (unat idx)]\<rparr>)
             tree' nextNode sentinel d')"
  using assms(5) unfolding assms(1-4,6,7) select_loop.simps select_pass_def Let_def
  by simp


lemma ex_worker0_trajectory: "trajectoryBuffer ex_worker0 = []"
  by (simp add: ex_worker0_def set_root_state_def set_root_node_def ex_worker_def SearchThread_ctor_def
      ex_settings_def)

theorem select_loop_existing_child_witness:
  "select_loop (Suc 0) ex_collab ex_worker0 ex_tree_pending 0 sentinel \<lparr>depth = 0, type = NODE_NEW_NODE\<rparr> =
     Some (Inr (1, \<lparr>depth = 1, type = NODE_COLLISION\<rparr>,
                ex_worker0\<lparr>trajectoryBuffer := [(0, 0)]\<rparr>, ex_tree_pending))"
proof -
  have idx: "(0 :: ChildIdx) = (if sentinel = sentinel
       then select_child_node ex_collab (searchSettings ex_worker0) ex_tree_pending 0 else sentinel)"
    by (simp add: ex_collab_def)
  have tree: "ex_tree_pending =
       apply_virtual_loss_to_child ex_collab 0 (searchSettings ex_worker0) 0 ex_tree_pending"
    by (simp add: ex_collab_def)
  have child: "get_child_node (node_at ex_tree_pending 0) (unat (0 :: ChildIdx)) = Some 1"
    by (simp add: ex_tree_pending_nodes ex_parent_def ex_leaf_def get_child_node_def)
  show ?thesis
    using select_loop_existing_child [OF idx tree refl refl child refl refl, of 0
        "\<lparr>depth = 0, type = NODE_NEW_NODE\<rparr>"]
    by (simp add: ex_tree_pending_nodes ex_leaf_def ex_worker0_trajectory)
qed

subsection \<open>Expansion of a missing child\<close>

lemma write_planes_at:
  "i < length xs \<Longrightarrow> write_planes buf offset xs (offset + i) = xs ! i"
  by (simp add: write_planes_def)

text \<open>
  C3: expanding a null child slot. With the attached node \<open>newNode\<close>, the transposition
  flag and the tree \<open>tree'\<close> that \<^verbatim>\<open>Node::add_new_node_to_tree\<close> gives,
  \<^verbatim>\<open>SearchThread::add_new_node_to_tree\<close> answers \<^verbatim>\<open>NODE_TERMINAL\<close> for a terminal node and
  stages nothing, also when the node is a transposition; else for a transposition it
  appends the value of the node in the parent's child slot (the canonical node the slot
  was linked to) to \<^verbatim>\<open>transpositionValues\<close> and answers \<^verbatim>\<open>NODE_TRANSPOSITION\<close>; else
  it answers \<^verbatim>\<open>NODE_NEW_NODE\<close>, and then the caller writes the state's planes into
  \<^verbatim>\<open>inputPlanes\<close> at the offset \<^verbatim>\<open>newNodes->size()\<close> times the number of input values,
  counts the state's phase in \<^verbatim>\<open>phaseCountMap\<close> and appends the side to move to
  \<^verbatim>\<open>newNodeSideToMove\<close>.
\<close>

theorem expansion_classification:
  assumes "st = do_action c (get_action (node_at tree cur) (unat childIdx))
                  (fold (do_action c) (actionsBuffer t) rs)"
    and "tree1 = set_node cur (increment_no_visit_idx (node_at tree cur)) tree"
    and "t1 = t\<lparr>newState := Some st\<rparr>"
    and "node_add_new_node_to_tree c st cur childIdx (searchSettings t) tree1 =
             (newNode, transposition, tree')"
    and "rootState t = Some rs"
    and "word_of_nat (length (actionsBuffer t)) = depth description - 1"
    and "nets t = net # others"
    and "planes = get_state_planes c True st (get_version net)"
    and "offset = fv_size (newNodes t) * get_nb_input_values_total net"
  shows "add_new_node_to_tree c t1 tree1 st cur childIdx =
     (if is_terminal (node_at tree' newNode) then Inr (newNode, NODE_TERMINAL, t1, tree')
      else if transposition then
        (case get_child_node (node_at tree' cur) (unat childIdx) of
           None \<Rightarrow> Inl NullPointer
         | Some child \<Rightarrow>
             Inr (newNode, NODE_TRANSPOSITION,
                  t1\<lparr>transpositionValues :=
                       add_element (node_value (node_at tree' child)) (transpositionValues t)\<rparr>,
                  tree'))
      else Inr (newNode, NODE_NEW_NODE, t1, tree')) \<and>
   expand_child c t tree cur childIdx description =
     (if is_terminal (node_at tree' newNode)
      then Inr (newNode, description\<lparr>type := NODE_TERMINAL\<rparr>, t1, tree')
      else if transposition then
        (case get_child_node (node_at tree' cur) (unat childIdx) of
           None \<Rightarrow> Inl NullPointer
         | Some child \<Rightarrow>
             Inr (newNode, description\<lparr>type := NODE_TRANSPOSITION\<rparr>,
                  t1\<lparr>transpositionValues :=
                       add_element (node_value (node_at tree' child)) (transpositionValues t)\<rparr>,
                  tree'))
      else Inr (newNode, description\<lparr>type := NODE_NEW_NODE\<rparr>,
                t1\<lparr>inputPlanes := write_planes (inputPlanes t) offset planes,
                   phaseCountMap :=
                     increment_count (get_phase c st (numPhases t) (gamePhaseDefinition (searchSettings t)))
                       (phaseCountMap t),
                   newNodeSideToMove := add_element (side_to_move c st) (newNodeSideToMove t)\<rparr>,
                tree')) \<and>
   (\<forall>i < length planes. write_planes (inputPlanes t) offset planes (offset + i) = planes ! i)"
proof (intro conjI)
  have settings: "searchSettings t1 = searchSettings t" by (simp add: assms(3))
  have tv: "transpositionValues t1 = transpositionValues t" by (simp add: assms(3))
  show a: "add_new_node_to_tree c t1 tree1 st cur childIdx =
     (if is_terminal (node_at tree' newNode) then Inr (newNode, NODE_TERMINAL, t1, tree')
      else if transposition then
        (case get_child_node (node_at tree' cur) (unat childIdx) of
           None \<Rightarrow> Inl NullPointer
         | Some child \<Rightarrow>
             Inr (newNode, NODE_TRANSPOSITION,
                  t1\<lparr>transpositionValues :=
                       add_element (node_value (node_at tree' child)) (transpositionValues t)\<rparr>,
                  tree'))
      else Inr (newNode, NODE_NEW_NODE, t1, tree'))"
    using assms(4) by (simp add: add_new_node_to_tree_def settings tv split: option.splits)
  note a' = a [unfolded assms(1,2,3)]
  show "expand_child c t tree cur childIdx description =
     (if is_terminal (node_at tree' newNode)
      then Inr (newNode, description\<lparr>type := NODE_TERMINAL\<rparr>, t1, tree')
      else if transposition then
        (case get_child_node (node_at tree' cur) (unat childIdx) of
           None \<Rightarrow> Inl NullPointer
         | Some child \<Rightarrow>
             Inr (newNode, description\<lparr>type := NODE_TRANSPOSITION\<rparr>,
                  t1\<lparr>transpositionValues :=
                       add_element (node_value (node_at tree' child)) (transpositionValues t)\<rparr>,
                  tree'))
      else Inr (newNode, description\<lparr>type := NODE_NEW_NODE\<rparr>,
                t1\<lparr>inputPlanes := write_planes (inputPlanes t) offset planes,
                   phaseCountMap :=
                     increment_count (get_phase c st (numPhases t) (gamePhaseDefinition (searchSettings t)))
                       (phaseCountMap t),
                   newNodeSideToMove := add_element (side_to_move c st) (newNodeSideToMove t)\<rparr>,
                tree'))"
    unfolding assms(1,2,3,8,9) expand_child_def Let_def
    using assms(5,6,7) by (simp add: a' split: option.splits)
  show "\<forall>i < length planes. write_planes (inputPlanes t) offset planes (offset + i) = planes ! i"
    by (simp add: write_planes_at)
qed


lemmas ex_worker0_unfold = ex_worker0_def set_root_state_def set_root_node_def ex_worker_def
  SearchThread_ctor_def ex_base_def ex_settings_def make_FixedVector_def

theorem expansion_classification_witness:
  "map_sum id (\<lambda>(n, d, t, tr). (n, type d, phaseCountMap t, elems (newNodeSideToMove t),
        map (inputPlanes t) [0, 1, 2], elems (transpositionValues t)))
     (expand_child ex_collab ex_worker0 (ex_tree_of (ex_parent [(3, None)])) 0 0
        \<lparr>depth = 1, type = NODE_COLLISION\<rparr>) =
   Inr (1, NODE_NEW_NODE, [(0, 1)], [1], [1, 2, 3], [])"
proof -
  let ?tree = "ex_tree_of (ex_parent [(3, None)])"
  let ?st = "do_action ex_collab (get_action (node_at ?tree 0) (unat (0 :: ChildIdx)))
                  (fold (do_action ex_collab) (actionsBuffer ex_worker0) 0)"
  let ?tree1 = "set_node 0 (increment_no_visit_idx (node_at ?tree 0)) ?tree"
  let ?X = "node_add_new_node_to_tree ex_collab ?st 0 0 (searchSettings ex_worker0) ?tree1"
  have attach: "?X = (fst ?X, fst (snd ?X), snd (snd ?X))" by simp
  have rs: "rootState ex_worker0 = Some 0" by (simp add: ex_worker0_unfold)
  have asrt: "word_of_nat (length (actionsBuffer ex_worker0)) = depth \<lparr>depth = 1, type = NODE_COLLISION\<rparr> - 1"
    by (simp add: ex_worker0_unfold)
  have nets: "nets ex_worker0 = \<lparr>is_policy_map = False, get_nb_input_values_total = 3, get_version = 1\<rparr> # []"
    by (simp add: ex_worker0_unfold)
  note e = conjunct1 [OF conjunct2 [OF expansion_classification [OF refl refl refl attach rs asrt nets refl refl]]]
  have st: "?st = 3"
    by (simp add: ex_collab_def ex_worker0_unfold ex_tree_of_def set_node_def ex_parent_def get_action_def)
  show ?thesis
    unfolding e
    by (simp add: ex_collab_def ex_attach_def ex_link_def ex_worker0_unfold set_node_def ex_leaf_def
        fv_size_def add_element_def write_planes_def ex_tree_of_def ex_parent_def get_action_def
        get_child_node_def increment_no_visit_idx_def get_number_child_nodes_def)
qed

subsection \<open>What a selection leaves alone\<close>

lemma quiet_frame_refl [simp]: "quiet_frame t t"
  by (simp add: quiet_frame_def selection_frame_def)

lemma quiet_frame_trans: "quiet_frame t t' \<Longrightarrow> quiet_frame t' t'' \<Longrightarrow> quiet_frame t t''"
  by (simp add: quiet_frame_def selection_frame_def)

lemma selection_frame_trans:
  "selection_frame t t' \<Longrightarrow> selection_frame t' t'' \<Longrightarrow> selection_frame t t''"
  by (simp add: selection_frame_def)

lemma quiet_frame_rand_call: "rand_call c t = (r, t') \<Longrightarrow> quiet_frame t t'"
  by (auto simp: rand_call_def quiet_frame_def selection_frame_def)

lemma quiet_frame_random_playout:
  "random_playout c t tree cur = Inr (childIdx, t', tree') \<Longrightarrow> quiet_frame t t'"
  by (auto simp: random_playout_def rand_call_def Let_def quiet_frame_def selection_frame_def
      split: if_splits option.splits)

lemma quiet_frame_get_starting_node_loop:
  "get_starting_node_loop k c t tree cur d childIdx = (cur', d', childIdx', t') \<Longrightarrow> quiet_frame t t'"
proof (induction k arbitrary: t cur d childIdx)
  case 0
  then show ?case by simp
next
  case (Suc k)
  show ?case
  proof (cases "get_child_node (node_at tree cur)
                  (unat (get_best_action_index c tree cur True (searchSettings t)))")
    case None
    then show ?thesis using Suc.prems by (simp add: Let_def)
  next
    case (Some nx)
    show ?thesis
    proof (cases "\<not> is_playout_node (node_at tree nx)
                \<or> unat (get_visits (node_at tree nx)) < epsilonGreedyCounter (searchSettings t)
                \<or> node_type (node_at tree nx) \<noteq> UNSOLVED")
      case True
      then show ?thesis using Suc.prems Some by (auto simp: Let_def)
    next
      case False
      let ?t1 = "t\<lparr>actionsBuffer := actionsBuffer t @
            [get_action (node_at tree cur) (unat (get_best_action_index c tree cur True (searchSettings t)))]\<rparr>"
      have "get_starting_node_loop k c ?t1 tree nx (d\<lparr>depth := depth d + 1\<rparr>)
              (get_best_action_index c tree cur True (searchSettings t)) = (cur', d', childIdx', t')"
        using Suc.prems Some False by (simp add: Let_def)
      then have "quiet_frame ?t1 t'" by (rule Suc.IH)
      moreover have "quiet_frame t ?t1" by (simp add: quiet_frame_def selection_frame_def)
      ultimately show ?thesis using quiet_frame_trans by blast
    qed
  qed
qed

lemma quiet_frame_get_starting_node:
  "get_starting_node c t tree cur d childIdx = Inr (cur', d', childIdx', t') \<Longrightarrow> quiet_frame t t'"
proof -
  assume a: "get_starting_node c t tree cur d childIdx = Inr (cur', d', childIdx', t')"
  obtain r t1 where rc: "rand_call c t = (r, t1)" by (cases "rand_call c t")
  have "quiet_frame t1 t'"
  proof (cases "get_random_depth r")
    case (Inl e)
    then show ?thesis using a rc by (simp add: get_starting_node_def)
  next
    case (Inr dp)
    then have "get_starting_node_loop (unat dp) c t1 tree cur d childIdx = (cur', d', childIdx', t')"
      using a rc by (simp add: get_starting_node_def)
    then show ?thesis by (rule quiet_frame_get_starting_node_loop)
  qed
  with quiet_frame_rand_call [OF rc] show ?thesis using quiet_frame_trans by blast
qed

lemma quiet_frame_start_random_playout:
  "start_random_playout c t tree cur d = Inr (cur', childIdx', d', t', tree') \<Longrightarrow> quiet_frame t t'"
  by (auto simp: start_random_playout_def split: sum.splits
      dest!: quiet_frame_get_starting_node quiet_frame_random_playout elim: quiet_frame_trans)

lemma quiet_frame_start_check_probe:
  "start_check_probe c t tree cur d = Inr (cur', childIdx', d', t', tree') \<Longrightarrow> quiet_frame t t'"
  apply (auto simp: start_check_probe_def split: sum.splits if_splits
      dest!: quiet_frame_get_starting_node quiet_frame_random_playout)
  apply (blast intro: quiet_frame_trans)+
  done

lemma quiet_frame_start_checks_or_root:
  "start_checks_or_root c t tree cur d = Inr (cur', childIdx', d', t', tree') \<Longrightarrow> quiet_frame t t'"
  by (auto simp: start_checks_or_root_def Let_def split: if_splits prod.splits
      dest!: quiet_frame_rand_call quiet_frame_start_check_probe elim: quiet_frame_trans)

lemma quiet_frame_start_selection:
  "start_selection c t tree cur d = Inr (cur', childIdx', d', t', tree') \<Longrightarrow> quiet_frame t t'"
  by (auto simp: start_selection_def Let_def split: if_splits prod.splits
      dest!: quiet_frame_rand_call quiet_frame_start_random_playout quiet_frame_start_checks_or_root
      elim: quiet_frame_trans)


lemma quiet_frame_add_new_node_to_tree:
  "add_new_node_to_tree c t tree st p i = Inr (n, ty, t', tree') \<Longrightarrow> quiet_frame t t'"
  by (auto simp: add_new_node_to_tree_def quiet_frame_def selection_frame_def add_element_def
      split: prod.splits if_splits option.splits)

lemma frame_expand_child:
  assumes "expand_child c t tree cur i d = Inr (n, d', t', tree')"
  shows "selection_frame t t' \<and> (type d' = NODE_NEW_NODE \<or> phaseCountMap t' = phaseCountMap t)"
proof -
  from assms obtain rs where rs: "rootState t = Some rs"
    by (auto simp: expand_child_def split: option.splits)
  define st where "st = do_action c (get_action (node_at tree cur) (unat i))
                  (fold (do_action c) (actionsBuffer t) rs)"
  define t1 where "t1 = t\<lparr>newState := Some st\<rparr>"
  define tree1 where "tree1 = set_node cur (increment_no_visit_idx (node_at tree cur)) tree"
  have q1: "quiet_frame t t1" by (simp add: t1_def quiet_frame_def selection_frame_def)
  from assms rs obtain n2 ty t2 tree2 where
    a: "add_new_node_to_tree c t1 tree1 st cur i = Inr (n2, ty, t2, tree2)"
    by (auto simp: expand_child_def Let_def st_def t1_def tree1_def split: if_splits sum.splits)
  have q2: "quiet_frame t1 t2" using a by (rule quiet_frame_add_new_node_to_tree)
  have q: "quiet_frame t t2" using q1 q2 by (rule quiet_frame_trans)
  show ?thesis
  proof (cases "ty = NODE_NEW_NODE")
    case True
    then have "type d' = NODE_NEW_NODE \<and> selection_frame t2 t'"
      using assms rs a
      by (auto simp: expand_child_def Let_def st_def [symmetric] t1_def [symmetric]
          tree1_def [symmetric] selection_frame_def split: if_splits list.splits)
    then show ?thesis using q selection_frame_trans unfolding quiet_frame_def by blast
  next
    case False
    then have "t' = t2"
      using assms rs a
      by (auto simp: expand_child_def Let_def st_def [symmetric] t1_def [symmetric]
          tree1_def [symmetric] split: if_splits)
    then show ?thesis using q by (simp add: quiet_frame_def)
  qed
qed

lemma frame_select_pass_Return:
  assumes "select_pass c t tree cur i d = Inr (Return n d' t' tree')"
  shows "selection_frame t t' \<and> (type d' = NODE_NEW_NODE \<or> phaseCountMap t' = phaseCountMap t)"
proof -
  define idx where "idx = (if i = sentinel then select_child_node c (searchSettings t) tree cur else i)"
  define tree1 where "tree1 = apply_virtual_loss_to_child c idx (searchSettings t) cur tree"
  define t1 where "t1 = t\<lparr>trajectoryBuffer := trajectoryBuffer t @ [(cur, idx)]\<rparr>"
  define d1 where "d1 = d\<lparr>depth := depth d + 1\<rparr>"
  have q1: "quiet_frame t t1" by (simp add: t1_def quiet_frame_def selection_frame_def)
  show ?thesis
  proof (cases "get_child_node (node_at tree1 cur) (unat idx)")
    case None
    then have "expand_child c t1 tree1 cur idx d1 = Inr (n, d', t', tree')"
      using assms
      by (auto simp: select_pass_def Let_def idx_def [symmetric] tree1_def [symmetric]
          t1_def [symmetric] d1_def [symmetric] split: sum.splits)
    then have "selection_frame t1 t' \<and> (type d' = NODE_NEW_NODE \<or> phaseCountMap t' = phaseCountMap t1)"
      by (rule frame_expand_child)
    then show ?thesis using q1 by (auto simp: quiet_frame_def selection_frame_def)
  next
    case (Some nx)
    then have "quiet_frame t1 t'"
      using assms
      by (auto simp: select_pass_def Let_def idx_def [symmetric] tree1_def [symmetric]
          t1_def [symmetric] d1_def [symmetric] quiet_frame_def selection_frame_def add_element_def
          split: if_splits)
    then show ?thesis using q1 by (auto simp: quiet_frame_def selection_frame_def)
  qed
qed

lemma frame_select_pass_Descend:
  assumes "select_pass c t tree cur i d = Inr (Descend n d' t' tree')"
  shows "quiet_frame t t'"
  using assms
  by (auto simp: select_pass_def Let_def quiet_frame_def selection_frame_def
      split: option.splits sum.splits if_splits)

lemma frame_select_loop:
  "select_loop fuel c t tree cur i d = Some (Inr (n, d', t', tree')) \<Longrightarrow>
     selection_frame t t' \<and> (type d' = NODE_NEW_NODE \<or> phaseCountMap t' = phaseCountMap t)"
proof (induction fuel arbitrary: t tree cur i d)
  case 0
  then show ?case by simp
next
  case (Suc fuel)
  show ?case
  proof (cases "select_pass c t tree cur i d")
    case (Inl e)
    then show ?thesis using Suc.prems by simp
  next
    case (Inr p)
    show ?thesis
    proof (cases p)
      case (Return n1 d1 t1 tree1)
      then have "n1 = n \<and> d1 = d' \<and> t1 = t' \<and> tree1 = tree'" using Suc.prems Inr by simp
      then show ?thesis using frame_select_pass_Return [of c t tree cur i d n d' t' tree'] Inr Return
        by simp
    next
      case (Descend n1 d1 t1 tree1)
      then have "select_loop fuel c t1 tree1 n1 sentinel d1 = Some (Inr (n, d', t', tree'))"
        using Suc.prems Inr by simp
      then have ih: "selection_frame t1 t' \<and> (type d' = NODE_NEW_NODE \<or> phaseCountMap t' = phaseCountMap t1)"
        by (rule Suc.IH)
      have "quiet_frame t t1" using frame_select_pass_Descend Inr Descend by blast
      then show ?thesis using ih by (auto simp: quiet_frame_def selection_frame_def)
    qed
  qed
qed

lemma frame_get_new_child_to_evaluate:
  assumes "get_new_child_to_evaluate sfuel c t tree d = Some (Inr (n, d', t', tree'))"
  shows "selection_frame t t' \<and> (type d' = NODE_NEW_NODE \<or> phaseCountMap t' = phaseCountMap t)"
proof -
  from assms obtain rootN where r: "rootNode t = Some rootN"
    by (auto simp: get_new_child_to_evaluate_def split: option.splits)
  from assms r obtain cur i d1 t1 tree1 where
    s: "start_selection c t tree rootN (d\<lparr>depth := 0\<rparr>) = Inr (cur, i, d1, t1, tree1)"
    and l: "select_loop sfuel c t1 tree1 cur i d1 = Some (Inr (n, d', t', tree'))"
    by (auto simp: get_new_child_to_evaluate_def split: sum.splits)
  have "quiet_frame t t1" using s by (rule quiet_frame_start_selection)
  then show ?thesis using frame_select_loop [OF l] by (auto simp: quiet_frame_def selection_frame_def)
qed

subsection \<open>Mini-batch assembly\<close>



lemma mini_batch_pass_config:
  assumes "mini_batch_pass sfuel c t tree d n = Some (Inr (t', tree', d', n'))"
  shows "searchSettings t' = searchSettings t \<and> terminalNodeCache t' = terminalNodeCache t \<and>
         nets t' = nets t \<and> capacity (newNodes t') = capacity (newNodes t) \<and>
         capacity (transpositionValues t') = capacity (transpositionValues t)"
proof -
  let ?t0 = "t\<lparr>trajectoryBuffer := [], actionsBuffer := []\<rparr>"
  from assms obtain leaf d1 tsel treesel where
    g: "get_new_child_to_evaluate sfuel c ?t0 tree d = Some (Inr (leaf, d1, tsel, treesel))"
    by (auto simp: mini_batch_pass_def Let_def split: option.splits sum.splits)
  have f: "selection_frame ?t0 tsel" using frame_get_new_child_to_evaluate [OF g] by simp
  show ?thesis
    using assms g f
    by (auto simp: mini_batch_pass_def Let_def selection_frame_def add_element_def split: if_splits)
qed







lemmas ex_worker_unfold = ex_worker0_def ex_worker1_def ex_worker_def set_root_state_def
  set_root_node_def SearchThread_ctor_def ex_base_def ex_settings_def make_FixedVector_def

lemmas ex_tree_unfold = ex_tree1_def ex_tree_of_def ex_tree0_def set_node_def ex_parent_def ex_leaf_def
  get_child_node_def get_action_def increment_no_visit_idx_def get_number_child_nodes_def
  ex_attach_def ex_link_def

lemmas selection_unfold = mini_batch_pass_def get_new_child_to_evaluate_def start_selection_def
  start_checks_or_root_def select_pass_def expand_child_def add_new_node_to_tree_def
  batch_continues_def is_full_def fv_size_def add_element_def is_playout_node_def




subsection \<open>The worker iteration\<close>

lemma mini_batch_pass_phase:
  assumes "mini_batch_pass sfuel c t tree d n = Some (Inr (t', tree', d', n'))"
  shows "(elems (newNodes t') \<noteq> []) \<or> (newNodes t' = newNodes t \<and> phaseCountMap t' = phaseCountMap t)"
proof -
  let ?t0 = "t\<lparr>trajectoryBuffer := [], actionsBuffer := []\<rparr>"
  from assms obtain leaf d1 tsel treesel where
    g: "get_new_child_to_evaluate sfuel c ?t0 tree d = Some (Inr (leaf, d1, tsel, treesel))"
    by (auto simp: mini_batch_pass_def Let_def split: option.splits sum.splits)
  have f: "selection_frame ?t0 tsel" "type d1 = NODE_NEW_NODE \<or> phaseCountMap tsel = phaseCountMap ?t0"
    using frame_get_new_child_to_evaluate [OF g] by simp_all
  show ?thesis
    using assms g f
    by (cases "type d1") (auto simp: mini_batch_pass_def Let_def selection_frame_def add_element_def)
qed

lemma create_mini_batch_loop_phase:
  "create_mini_batch_loop fuel sfuel c t tree d n = Some (Inr (t', tree', d', n')) \<Longrightarrow>
     (elems (newNodes t) = [] \<longrightarrow> phaseCountMap t = []) \<Longrightarrow>
     nets t' = nets t \<and> (elems (newNodes t') = [] \<longrightarrow> phaseCountMap t' = [])"
proof (induction fuel arbitrary: t tree d n)
  case 0
  then show ?case by (auto split: if_splits)
next
  case (Suc fuel)
  show ?case
  proof (cases "batch_continues t n")
    case False
    then show ?thesis using Suc.prems by auto
  next
    case True
    from Suc.prems(1) True obtain t1 tree1 d1 n1 where
      p: "mini_batch_pass sfuel c t tree d n = Some (Inr (t1, tree1, d1, n1))"
      and l: "create_mini_batch_loop fuel sfuel c t1 tree1 d1 n1 = Some (Inr (t', tree', d', n'))"
      by (auto split: option.splits sum.splits)
    have j: "elems (newNodes t1) = [] \<longrightarrow> phaseCountMap t1 = []"
      using mini_batch_pass_phase [OF p] Suc.prems(2) by auto
    have n: "nets t1 = nets t" using mini_batch_pass_config [OF p] by simp
    show ?thesis using Suc.IH [OF l j] n by simp
  qed
qed

lemma create_mini_batch_phase:
  assumes "create_mini_batch fuel sfuel c t tree d = Some (Inr (t', tree'))"
    and "phaseCountMap t = []"
  shows "nets t' = nets t \<and> (elems (newNodes t') = [] \<longrightarrow> phaseCountMap t' = [])"
proof -
  from assms(1) obtain d' n' where
    "create_mini_batch_loop fuel sfuel c t tree d 0 = Some (Inr (t', tree', d', n'))"
    by (auto simp: create_mini_batch_def split: option.splits sum.splits)
  then show ?thesis using create_mini_batch_loop_phase assms(2) by blast
qed

lemma create_mini_batch_loop_nets:
  "create_mini_batch_loop fuel sfuel c t tree d n = Some (Inr (t', tree', d', n')) \<Longrightarrow> nets t' = nets t"
proof (induction fuel arbitrary: t tree d n)
  case 0
  then show ?case by (auto split: if_splits)
next
  case (Suc fuel)
  show ?case
  proof (cases "batch_continues t n")
    case False
    then show ?thesis using Suc.prems by auto
  next
    case True
    from Suc.prems(1) True obtain t1 tree1 d1 n1 where
      p: "mini_batch_pass sfuel c t tree d n = Some (Inr (t1, tree1, d1, n1))"
      and l: "create_mini_batch_loop fuel sfuel c t1 tree1 d1 n1 = Some (Inr (t', tree', d', n'))"
      by (auto split: option.splits sum.splits)
    show ?thesis using Suc.IH [OF l] mini_batch_pass_config [OF p] by simp
  qed
qed

lemma create_mini_batch_nets:
  "create_mini_batch fuel sfuel c t tree d = Some (Inr (t', tree')) \<Longrightarrow> nets t' = nets t"
  by (auto simp: create_mini_batch_def split: option.splits sum.splits dest: create_mini_batch_loop_nets)

lemma set_nn_results_loop_phase:
  "set_nn_results_loop c ns i net rs rootN t tree = Inr (t', tree') \<Longrightarrow>
     phaseCountMap t' = phaseCountMap t"
proof (induction ns arbitrary: i t tree)
  case Nil
  then show ?case by simp
next
  case (Cons node rest)
  then show ?case
    by (auto simp: Let_def split: if_splits prod.splits)
qed

lemma set_nn_results_phase:
  "set_nn_results_to_child_nodes c t tree = Inr (t', tree') \<Longrightarrow> phaseCountMap t' = phaseCountMap t"
  by (auto simp: set_nn_results_to_child_nodes_def split: list.splits option.splits if_splits
      dest: set_nn_results_loop_phase)

lemma select_nn_index_phase:
  "select_nn_index t = Inr (i, t') \<Longrightarrow>
     nets t' = nets t \<and> phaseCountMap t' = (if length (nets t) = 1 then phaseCountMap t else [])"
  by (auto simp: select_nn_index_def Let_def split: if_splits list.splits option.splits)

lemma query_network_phase:
  assumes "query_network c t tree = Inr (t', tree')"
  shows "phaseCountMap t' =
           (if elems (newNodes t) \<noteq> [] \<and> length (nets t) \<noteq> 1 then [] else phaseCountMap t)"
proof (cases "fv_size (newNodes t) \<noteq> 0")
  case False
  then show ?thesis using assms by (simp add: query_network_def fv_size_def)
next
  case True
  from assms True obtain i t1 where s: "select_nn_index t = Inr (i, t1)"
    by (auto simp: query_network_def split: sum.splits)
  obtain v p a where pr: "predict c i (inputPlanes t1) = (v, p, a)" by (cases "predict c i (inputPlanes t1)")
  have "set_nn_results_to_child_nodes c
          (t1\<lparr>valueOutputs := v, probOutputs := p, auxiliaryOutputs := a\<rparr>) tree = Inr (t', tree')"
    using assms True s pr by (auto simp: query_network_def split: if_splits)
  then have "phaseCountMap t' = phaseCountMap t1" using set_nn_results_phase by fastforce
  then show ?thesis using select_nn_index_phase [OF s] True by (auto simp: fv_size_def)
qed

lemma backup_value_outputs_cleared:
  "backup_value_outputs c t tree = Inr (t', tree') \<Longrightarrow>
     elems (newNodes t') = [] \<and> elems (newNodeSideToMove t') = [] \<and> newTrajectories t' = [] \<and>
     elems (transpositionValues t') = [] \<and> transpositionTrajectories t' = [] \<and>
     phaseCountMap t' = phaseCountMap t"
  by (auto simp: backup_value_outputs_def backup_values_nodes_def backup_values_floats_def
      reset_idx_def Let_def split: sum.splits)

lemma backup_collisions_cleared:
  "backup_collisions c t tree = (t', tree') \<Longrightarrow>
     collisionTrajectories t' = [] \<and> newNodes t' = newNodes t \<and>
     newNodeSideToMove t' = newNodeSideToMove t \<and> newTrajectories t' = newTrajectories t \<and>
     transpositionValues t' = transpositionValues t \<and>
     transpositionTrajectories t' = transpositionTrajectories t \<and> phaseCountMap t' = phaseCountMap t"
  by (auto simp: backup_collisions_def)

text \<open>
  C4, as amended: after every worker iteration that completes, \<^verbatim>\<open>newNodes\<close>,
  \<^verbatim>\<open>newNodeSideToMove\<close>, \<^verbatim>\<open>newTrajectories\<close>, \<^verbatim>\<open>transpositionValues\<close>,
  \<^verbatim>\<open>transpositionTrajectories\<close> and \<^verbatim>\<open>collisionTrajectories\<close> are empty, in every
  configuration. The histogram \<^verbatim>\<open>phaseCountMap\<close> is empty again when more than one network
  is configured (it was empty before the iteration); with a single network
  \<^verbatim>\<open>select_nn_index\<close> returns before clearing it and the histogram stays as the mini-batch
  left it.
\<close>

theorem thread_iteration_clears_staging:
  assumes "thread_iteration fuel sfuel c t tree d = Some (Inr (t', tree'))"
  shows "elems (newNodes t') = [] \<and> elems (newNodeSideToMove t') = [] \<and> newTrajectories t' = [] \<and>
         elems (transpositionValues t') = [] \<and> transpositionTrajectories t' = [] \<and>
         collisionTrajectories t' = [] \<and>
         (length (nets t) \<noteq> 1 \<and> phaseCountMap t = [] \<longrightarrow> phaseCountMap t' = []) \<and>
         (\<forall>t1 tree1. length (nets t) = 1 \<and>
              create_mini_batch fuel sfuel c t tree d = Some (Inr (t1, tree1)) \<longrightarrow>
              phaseCountMap t' = phaseCountMap t1)"
proof -
  from assms obtain t1 tree1 where
    b: "create_mini_batch fuel sfuel c t tree d = Some (Inr (t1, tree1))"
    by (auto simp: thread_iteration_def split: option.splits sum.splits)
  from assms b obtain t2 tree2 where q: "query_network c t1 tree1 = Inr (t2, tree2)"
    by (auto simp: thread_iteration_def split: sum.splits)
  from assms b q obtain t3 tree3 where o: "backup_value_outputs c t2 tree2 = Inr (t3, tree3)"
    by (auto simp: thread_iteration_def split: sum.splits)
  have k: "backup_collisions c t3 tree3 = (t', tree')"
    using assms b q o by (simp add: thread_iteration_def)
  note o' = backup_value_outputs_cleared [OF o]
  note k' = backup_collisions_cleared [OF k]
  have six: "elems (newNodes t') = [] \<and> elems (newNodeSideToMove t') = [] \<and> newTrajectories t' = [] \<and>
         elems (transpositionValues t') = [] \<and> transpositionTrajectories t' = [] \<and>
         collisionTrajectories t' = []"
    using o' k' by simp
  have ph: "phaseCountMap t' = phaseCountMap t2" using o' k' by simp
  have n1: "nets t1 = nets t" using b by (rule create_mini_batch_nets)
  have multi: "phaseCountMap t' = []" if "length (nets t) \<noteq> 1" "phaseCountMap t = []"
    using query_network_phase [OF q] create_mini_batch_phase [OF b that(2)] that(1) n1 ph
    by (auto split: if_splits)
  have single: "phaseCountMap t' = phaseCountMap t1a"
    if "length (nets t) = 1" "create_mini_batch fuel sfuel c t tree d = Some (Inr (t1a, tree1a))"
    for t1a tree1a
    using query_network_phase [OF q] that b n1 ph by simp
  show ?thesis using six multi single by blast
qed


lemmas iteration_unfold = thread_iteration_def create_mini_batch_def query_network_def
  select_nn_index_def set_nn_results_to_child_nodes_def fill_nn_results_def node_assign_value_def
  node_post_process_policy_def backup_value_outputs_def backup_values_nodes_def
  backup_values_floats_def backup_collisions_def reset_idx_def

text \<open>
  The claim fails with a single network: an iteration that stages one new leaf ends with
  the leaf's phase still counted in \<^verbatim>\<open>phaseCountMap\<close>.
\<close>

theorem thread_iteration_single_network:
  "phaseCountMap ex_worker1 = [] \<and> elems (newNodes ex_worker1) = [] \<and>
   map_option (map_sum id (\<lambda>(t, tree). (length (nets t), phaseCountMap t, elems (newNodes t))))
     (thread_iteration 1 1 ex_collab ex_worker1 ex_tree1 ex_description) =
   Some (Inr (1, [(0, 1)], []))"
  by (simp add: iteration_unfold selection_unfold ex_worker_unfold ex_description_def ex_collab_def
      ex_tree_unfold)

lemma ex_thread_iteration2:
  "\<exists>t' tree'. thread_iteration 1 1 ex_collab ex_worker2 ex_tree1 ex_description = Some (Inr (t', tree'))"
  by (simp add: iteration_unfold selection_unfold ex_worker2_def ex_worker_unfold ex_description_def
      ex_collab_def ex_tree_unfold)

theorem thread_iteration_clears_staging_witness:
  "\<exists>t' tree'. thread_iteration 1 1 ex_collab ex_worker2 ex_tree1 ex_description = Some (Inr (t', tree')) \<and>
     elems (newNodes t') = [] \<and> elems (newNodeSideToMove t') = [] \<and> newTrajectories t' = [] \<and>
     elems (transpositionValues t') = [] \<and> transpositionTrajectories t' = [] \<and>
     collisionTrajectories t' = [] \<and> phaseCountMap t' = []"
proof -
  obtain t' tree' where r: "thread_iteration 1 1 ex_collab ex_worker2 ex_tree1 ex_description =
      Some (Inr (t', tree'))"
    using ex_thread_iteration2 by blast
  have n: "length (nets ex_worker2) \<noteq> 1" "phaseCountMap ex_worker2 = []"
    by (simp_all add: ex_worker2_def ex_worker_unfold)
  show ?thesis using thread_iteration_clears_staging [OF r] r n by blast
qed

end
